theory Spec2Isabelle
  imports Main "HOL-Library.Word"
begin

unbundle bit_operations_syntax

section \<open>sqlasync: result queues and the wakeup object\<close>

text \<open>
  The development follows the sqlasync implementation (the C file whose first include is
  \<^verbatim>\<open>"sqlasync.h"\<close>) and its header.  Pointers to queues are natural numbers, a
  pointer that may be \<^verbatim>\<open>NULL\<close> is an \<open>option\<close>.  Each public function takes its
  mutex for the whole of its body, so one call is one atomic step on the shared state;
  a \<^verbatim>\<open>pthread_cond_wait\<close> whose condition does not hold is the value \<open>None\<close>
  (the caller is blocked and nothing has changed).  Buffer ownership (\<^verbatim>\<open>freeptr\<close>)
  is not modelled.
\<close>

subsection \<open>Constants of limits.h and sqlite3.h\<close>

type_synonym uint = "32 word"

definition UINT_MAX :: uint where
  "UINT_MAX = 4294967295"

definition SQLITE_OK :: int where "SQLITE_OK = 0"
definition SQLITE_ERROR :: int where "SQLITE_ERROR = 1"
definition SQLITE_BUSY :: int where "SQLITE_BUSY = 5"
definition SQLITE_ROW :: int where "SQLITE_ROW = 100"
definition SQLITE_DONE :: int where "SQLITE_DONE = 101"

subsection \<open>Values and results (sqlasync.h)\<close>

text \<open>
  \<^verbatim>\<open>sqlasync_value_t\<close>: a tagged scalar.  A float is its 64 bits.  \<open>Ptr\<close> is the
  \<^verbatim>\<open>val.ptr\<close> member when the implementation uses a value to carry a queue or a
  function pointer (\<^verbatim>\<open>sqlasync_open\<close>, \<^verbatim>\<open>sqlasync_custom\<close>).
\<close>

datatype sqlasync_value_t =
    Null
  | Integer "64 word"
  | Float "64 word"
  | Text string
  | Blob nat "8 word list option"
  | Ptr "nat option"

definition sqlasync_null :: sqlasync_value_t where
  "sqlasync_null = Null"

definition sqlasync_int :: "64 word \<Rightarrow> sqlasync_value_t" where
  "sqlasync_int val = Integer val"

definition sqlasync_text :: "string \<Rightarrow> sqlasync_value_t" where
  "sqlasync_text s = Text s"

text \<open>
  \<^verbatim>\<open>sqlasync_result_t\<close>.  \<open>numcol\<close> is the length of \<open>col\<close>; the \<^verbatim>\<open>next\<close> link is
  the position in a list, and the \<^verbatim>\<open>queue\<close> back-reference is kept beside the
  result where the wakeup object stores it.
\<close>

record sqlasync_result_t =
  result :: int
  lastres :: bool
  col :: "sqlasync_value_t list"

definition numcol :: "sqlasync_result_t \<Rightarrow> nat" where
  "numcol r = length (col r)"

text \<open>
  \<^verbatim>\<open>sqlasync_result_create(unsigned short result, unsigned short last, unsigned int numcol)\<close>:
  the columns are allocated and left for the caller to fill; here they start as \<open>Null\<close>.
\<close>

definition sqlasync_result_create :: "16 word \<Rightarrow> 16 word \<Rightarrow> nat \<Rightarrow> sqlasync_result_t" where
  "sqlasync_result_create res lst n =
     \<lparr>result = uint res, lastres = (lst \<noteq> 0), col = replicate n Null\<rparr>"

subsection \<open>Queues, the wakeup object and the shared state\<close>

record sqlasync_queue_t =
  sync :: bool
  each :: bool
  func :: nat
  first :: "sqlasync_result_t list"
  numscheduled :: uint
  destroyed :: bool
  numresults :: uint
  maxresults :: uint

text \<open>
  \<^verbatim>\<open>sqlasync_wakeup_t\<close>: the FIFO \<open>wfirst\<close> holds each result with the queue that
  owns it.  \<open>schedule\<close> tells whether a schedule callback was given.
\<close>

record sqlasync_wakeup_t =
  schedule :: bool
  wfirst :: "(nat \<times> sqlasync_result_t) list"
  wnumscheduled :: uint
  haswoken :: bool

text \<open>What the library does to the outside: callbacks it invokes and objects it frees.\<close>

datatype event =
    Wakeup_called
  | Schedule_called
  | Func_called nat
  | Result_freed sqlasync_result_t
  | Queue_freed nat

text \<open>
  One wakeup object, the queues (asynchronous ones use this wakeup object, synchronous
  ones have none), the next unused queue pointer, and the events so far.
\<close>

record world =
  wakeup :: sqlasync_wakeup_t
  queues :: "nat \<Rightarrow> sqlasync_queue_t"
  nextq :: nat
  trace :: "event list"

definition emit :: "event \<Rightarrow> world \<Rightarrow> world" where
  "emit ev w = w\<lparr>trace := trace w @ [ev]\<rparr>"

definition setq :: "nat \<Rightarrow> sqlasync_queue_t \<Rightarrow> world \<Rightarrow> world" where
  "setq q Q w = w\<lparr>queues := (queues w)(q := Q)\<rparr>"

definition calloc_queue :: sqlasync_queue_t where
  "calloc_queue = \<lparr>sync = False, each = False, func = 0, first = [],
     numscheduled = 0, destroyed = False, numresults = 0, maxresults = 0\<rparr>"

definition sqlasync_wakeup_create :: "bool \<Rightarrow> sqlasync_wakeup_t" where
  "sqlasync_wakeup_create sched =
     \<lparr>schedule = sched, wfirst = [], wnumscheduled = 0, haswoken = False\<rparr>"

definition sqlasync_queue_sync :: "world \<Rightarrow> nat \<times> world" where
  "sqlasync_queue_sync w =
     (let q = nextq w;
          Q = calloc_queue\<lparr>sync := True, maxresults := UINT_MAX\<rparr>
      in (q, (setq q Q w)\<lparr>nextq := Suc q\<rparr>))"

definition sqlasync_queue_async :: "bool \<Rightarrow> nat \<Rightarrow> world \<Rightarrow> nat \<times> world" where
  "sqlasync_queue_async e f w =
     (let q = nextq w;
          Q = calloc_queue\<lparr>each := e, func := f, maxresults := UINT_MAX\<rparr>
      in (q, (setq q Q w)\<lparr>nextq := Suc q\<rparr>))"

definition sqlasync_queue_buffersize :: "nat \<Rightarrow> uint \<Rightarrow> world \<Rightarrow> nat \<times> world" where
  "sqlasync_queue_buffersize q len w =
     (q, setq q ((queues w q)\<lparr>maxresults := (if len \<noteq> 0 then len else UINT_MAX)\<rparr>) w)"

subsection \<open>Freeing\<close>

definition sqlasync_result_free :: "sqlasync_result_t \<Rightarrow> world \<Rightarrow> world" where
  "sqlasync_result_free r w = emit (Result_freed r) w"

definition sqlasync_queue_free :: "nat \<Rightarrow> world \<Rightarrow> world" where
  "sqlasync_queue_free q w = emit (Queue_freed q) w"

subsection \<open>\<^verbatim>\<open>sqlasync_queue_get\<close>\<close>

text \<open>The block \<^verbatim>\<open>if(res) { ... }\<close>: the counters and the wakeup after a result was taken.\<close>

definition queue_get_taken :: "nat \<Rightarrow> sqlasync_result_t \<Rightarrow> world \<Rightarrow> sqlasync_result_t option \<times> world" where
  "queue_get_taken q r w =
     (let Q = queues w q;
          Q1 = Q\<lparr>numresults := numresults Q - 1\<rparr>;
          w1 = setq q Q1 w
      in if lastres r then
           (let w2 = setq q (Q1\<lparr>numscheduled := numscheduled Q1 - 1\<rparr>) w1
            in if \<not> sync Q then
                 (let W1 = (wakeup w2)\<lparr>wnumscheduled := wnumscheduled (wakeup w2) - 1\<rparr>
                  in if wnumscheduled W1 = 0 \<and> \<not> haswoken W1
                     then (Some r, emit Wakeup_called (w2\<lparr>wakeup := W1\<lparr>haswoken := True\<rparr>\<rparr>))
                     else (Some r, w2\<lparr>wakeup := W1\<rparr>))
               else (Some r, w2))
         else (Some r, w1))"

text \<open>
  \<open>None\<close>: a synchronous queue is empty and the caller waits on the condition.
  \<open>Some (None, w)\<close>: the call returned \<^verbatim>\<open>NULL\<close>.
\<close>

definition sqlasync_queue_get :: "nat \<Rightarrow> world \<Rightarrow> (sqlasync_result_t option \<times> world) option" where
  "sqlasync_queue_get q w =
     (let Q = queues w q
      in if sync Q then
           (case first Q of
              [] \<Rightarrow> None
            | r # rs \<Rightarrow> Some (queue_get_taken q r (setq q (Q\<lparr>first := rs\<rparr>) w)))
         else
           (case wfirst (wakeup w) of
              [] \<Rightarrow> Some (None, w)
            | (q', r) # rs \<Rightarrow>
                if q' = q
                then Some (queue_get_taken q r (w\<lparr>wakeup := (wakeup w)\<lparr>wfirst := rs\<rparr>\<rparr>))
                else Some (None, w)))"

subsection \<open>\<^verbatim>\<open>sqlasync_queue_schedule\<close> and \<^verbatim>\<open>sqlasync_queue_destroy\<close>\<close>

definition sqlasync_queue_schedule :: "nat option \<Rightarrow> world \<Rightarrow> world" where
  "sqlasync_queue_schedule qp w =
     (case qp of
        None \<Rightarrow> w
      | Some q \<Rightarrow>
          (let Q = queues w q;
               w1 = setq q (Q\<lparr>numscheduled := numscheduled Q + 1\<rparr>) w;
               shouldsched = (\<not> sync Q \<and> wnumscheduled (wakeup w1) = 0);
               w2 = (if sync Q then w1
                     else w1\<lparr>wakeup := (wakeup w1)\<lparr>wnumscheduled := wnumscheduled (wakeup w1) + 1\<rparr>\<rparr>)
           in if shouldsched \<and> schedule (wakeup w2) then emit Schedule_called w2 else w2))"

text \<open>The loop \<^verbatim>\<open>while(q->first)\<close> of \<^verbatim>\<open>sqlasync_queue_destroy\<close>, over the buffered results.\<close>

primrec destroy_drain :: "sqlasync_result_t list \<Rightarrow> sqlasync_queue_t \<Rightarrow> event list \<Rightarrow> sqlasync_queue_t \<times> event list" where
  "destroy_drain [] Q t = (Q\<lparr>first := []\<rparr>, t)"
| "destroy_drain (r # rs) Q t =
     destroy_drain rs
       (Q\<lparr>first := rs, numresults := numresults Q - 1,
          numscheduled := (if lastres r then numscheduled Q - 1 else numscheduled Q)\<rparr>)
       (t @ [Result_freed r])"

definition sqlasync_queue_destroy :: "nat option \<Rightarrow> world \<Rightarrow> world" where
  "sqlasync_queue_destroy qp w =
     (case qp of
        None \<Rightarrow> w
      | Some q \<Rightarrow>
          (let Q = (queues w q)\<lparr>destroyed := True\<rparr>;
               d = destroy_drain (first Q) Q (trace w);
               w1 = (setq q (fst d) w)\<lparr>trace := snd d\<rparr>
           in if numscheduled (fst d) = 0 \<and> numresults (fst d) = 0
              then sqlasync_queue_free q w1 else w1))"

subsection \<open>\<^verbatim>\<open>sqlasync_queue_result\<close>\<close>

text \<open>The label \<^verbatim>\<open>final:\<close> and what follows it.\<close>

definition result_final :: "bool \<Rightarrow> bool \<Rightarrow> nat \<Rightarrow> world \<Rightarrow> world" where
  "result_final shouldwakeup shouldfree q w =
     (let fire = (shouldwakeup \<and> \<not> haswoken (wakeup w));
          w1 = (if shouldwakeup then w\<lparr>wakeup := (wakeup w)\<lparr>haswoken := True\<rparr>\<rparr> else w);
          w2 = (if fire then emit Wakeup_called w1 else w1)
      in if shouldfree then sqlasync_queue_free q w2 else w2)"

text \<open>The branch \<^verbatim>\<open>if(q->destroyed)\<close>.\<close>

definition result_destroyed :: "nat \<Rightarrow> sqlasync_result_t \<Rightarrow> world \<Rightarrow> world" where
  "result_destroyed q r w =
     (let Q = queues w q
      in if lastres r then
           (let Q1 = Q\<lparr>numscheduled := numscheduled Q - 1\<rparr>;
                W1 = (if sync Q then wakeup w
                      else (wakeup w)\<lparr>wnumscheduled := wnumscheduled (wakeup w) - 1\<rparr>);
                shouldwakeup = (\<not> sync Q \<and> wnumscheduled W1 = 0);
                shouldfree = (numscheduled Q1 = 0 \<and> numresults Q1 = 0)
            in result_final shouldwakeup shouldfree q
                 (sqlasync_result_free r ((setq q Q1 w)\<lparr>wakeup := W1\<rparr>)))
         else result_final False False q (sqlasync_result_free r w))"

text \<open>From \<^verbatim>\<open>q->numresults++\<close> on: the result is stored, buffered or forwarded.\<close>

definition result_deliver :: "nat \<Rightarrow> sqlasync_result_t \<Rightarrow> world \<Rightarrow> world" where
  "result_deliver q r w =
     (let Q1 = (queues w q)\<lparr>numresults := numresults (queues w q) + 1\<rparr>
      in if sync Q1 then result_final False False q (setq q (Q1\<lparr>first := first Q1 @ [r]\<rparr>) w)
         else
           (let Q2 = (if \<not> each Q1 \<and> \<not> lastres r then Q1\<lparr>first := first Q1 @ [r]\<rparr> else Q1);
                unbuffer = (\<not> each Q2 \<and> lastres r \<and> first Q2 \<noteq> []);
                W1 = (if unbuffer
                      then (wakeup w)\<lparr>wfirst := wfirst (wakeup w) @ map (Pair q) (first Q2)\<rparr>
                      else wakeup w);
                Q3 = (if unbuffer then Q2\<lparr>first := []\<rparr> else Q2);
                forward = (each Q3 \<or> lastres r);
                W2 = (if forward then W1\<lparr>wfirst := wfirst W1 @ [(q, r)]\<rparr> else W1)
            in result_final forward False q ((setq q Q3 w)\<lparr>wakeup := W2\<rparr>)))"

text \<open>
  \<open>None\<close>: the queue is full and the caller waits in
  \<^verbatim>\<open>while(q->numresults >= q->maxresults) pthread_cond_wait(...)\<close>.
\<close>

definition sqlasync_queue_result :: "nat option \<Rightarrow> sqlasync_result_t \<Rightarrow> world \<Rightarrow> world option" where
  "sqlasync_queue_result qp r w =
     (case qp of
        None \<Rightarrow> Some (sqlasync_result_free r w)
      | Some q \<Rightarrow>
          if destroyed (queues w q) then Some (result_destroyed q r w)
          else if numresults (queues w q) \<ge> maxresults (queues w q) then None
          else Some (result_deliver q r w))"

text \<open>
  A caller that waited in that loop is woken by a signal: the loop condition is tested
  again (and only it: \<^verbatim>\<open>q->destroyed\<close> is not read a second time).
\<close>

definition queue_result_resume :: "nat \<Rightarrow> sqlasync_result_t \<Rightarrow> world \<Rightarrow> world option" where
  "queue_result_resume q r w =
     (if numresults (queues w q) \<ge> maxresults (queues w q) then None
      else Some (result_deliver q r w))"

subsection \<open>Calls in sequence, and \<^verbatim>\<open>sqlasync_dispatch\<close>\<close>

text \<open>
  The calls that any thread may make on the shared state between two dispatches, and that
  a result callback may make from inside a dispatch.  A queue gets its capacity when it
  is created, as the header requires of \<^verbatim>\<open>sqlasync_queue_buffersize\<close>.
\<close>

datatype call =
    New_sync uint
  | New_async bool nat uint
  | Get nat
  | Schedule "nat option"
  | Destroy "nat option"
  | Result "nat option" sqlasync_result_t
  | Resume nat sqlasync_result_t

fun run_call :: "call \<Rightarrow> world \<Rightarrow> world option" where
  "run_call (New_sync len) w =
     (case sqlasync_queue_sync w of (q, w1) \<Rightarrow> Some (snd (sqlasync_queue_buffersize q len w1)))"
| "run_call (New_async e f len) w =
     (case sqlasync_queue_async e f w of (q, w1) \<Rightarrow> Some (snd (sqlasync_queue_buffersize q len w1)))"
| "run_call (Get q) w = map_option snd (sqlasync_queue_get q w)"
| "run_call (Schedule qp) w = Some (sqlasync_queue_schedule qp w)"
| "run_call (Destroy qp) w = Some (sqlasync_queue_destroy qp w)"
| "run_call (Result qp r) w = sqlasync_queue_result qp r w"
| "run_call (Resume q r) w = queue_result_resume q r w"

fun run_calls :: "call list \<Rightarrow> world \<Rightarrow> world option" where
  "run_calls [] w = Some w"
| "run_calls (c # cs) w = (case run_call c w of None \<Rightarrow> None | Some w1 \<Rightarrow> run_calls cs w1)"

text \<open>The destroyed branch of the dispatch loop.\<close>

definition dispatch_discard :: "nat \<Rightarrow> sqlasync_result_t \<Rightarrow> (nat \<times> sqlasync_result_t) list \<Rightarrow> world \<Rightarrow> world" where
  "dispatch_discard q res rest w =
     (let Q = queues w q;
          Q1 = Q\<lparr>numresults := numresults Q - 1,
                 numscheduled := (if lastres res then numscheduled Q - 1 else numscheduled Q)\<rparr>;
          W1 = (wakeup w)\<lparr>wfirst := rest,
                 wnumscheduled := (if lastres res then wnumscheduled (wakeup w) - 1
                                   else wnumscheduled (wakeup w))\<rparr>;
          w1 = sqlasync_result_free res ((setq q Q1 w)\<lparr>wakeup := W1\<rparr>)
      in if numscheduled Q1 = 0 \<and> numresults Q1 = 0 then sqlasync_queue_free q w1 else w1)"

text \<open>
  The loop \<^verbatim>\<open>while(w->first)\<close>.  \<open>cb q w\<close> is what the callback of queue \<open>q\<close> does when
  it is invoked in state \<open>w\<close>, together with what other threads do meanwhile (the mutex
  is released around the callback).  The loop need not end: a callback that takes no
  result is invoked again and again.
\<close>

partial_function (option) dispatch_loop :: "(nat \<Rightarrow> world \<Rightarrow> call list) \<Rightarrow> world \<Rightarrow> world option" where
  "dispatch_loop cb w =
     (case wfirst (wakeup w) of
        [] \<Rightarrow> Some w
      | x # rest \<Rightarrow>
          if destroyed (queues w (fst x))
          then dispatch_loop cb (dispatch_discard (fst x) (snd x) rest w)
          else (case run_calls (cb (fst x) w) (emit (Func_called (fst x)) w) of
                  None \<Rightarrow> None
                | Some w1 \<Rightarrow> dispatch_loop cb w1))"

declare dispatch_loop.simps [code]

definition sqlasync_dispatch :: "(nat \<Rightarrow> world \<Rightarrow> call list) \<Rightarrow> world \<Rightarrow> world option" where
  "sqlasync_dispatch cb w =
     (case dispatch_loop cb w of
        None \<Rightarrow> None
      | Some w1 \<Rightarrow>
          (let w2 = w1\<lparr>wakeup := (wakeup w1)\<lparr>haswoken := False\<rparr>\<rparr>
           in Some (if wnumscheduled (wakeup w2) \<noteq> 0 \<and> schedule (wakeup w2)
                    then emit Schedule_called w2 else w2)))"

text \<open>A step of the whole: a call, or a dispatch.\<close>

datatype action = Call call | Dispatch

fun run_action :: "(nat \<Rightarrow> world \<Rightarrow> call list) \<Rightarrow> action \<Rightarrow> world \<Rightarrow> world option" where
  "run_action cb (Call c) w = run_call c w"
| "run_action cb Dispatch w = sqlasync_dispatch cb w"

fun run_actions :: "(nat \<Rightarrow> world \<Rightarrow> call list) \<Rightarrow> action list \<Rightarrow> world \<Rightarrow> world option" where
  "run_actions cb [] w = Some w"
| "run_actions cb (a # as) w =
     (case run_action cb a w of None \<Rightarrow> None | Some w1 \<Rightarrow> run_actions cb as w1)"

definition world_init :: "bool \<Rightarrow> world" where
  "world_init sched =
     \<lparr>wakeup = sqlasync_wakeup_create sched, queues = (\<lambda>q. calloc_queue), nextq = 0, trace = []\<rparr>"

section \<open>sqlasync: the connection and its worker thread\<close>

text \<open>
  The worker thread is the only code that touches the SQL engine.  The engine is outside
  the repository; it is a parameter: a state \<open>'e\<close> and the functions of sqlite3.h that the
  worker calls, each taking the engine state and returning the new one.  A statement
  handle is a number, \<^verbatim>\<open>NULL\<close> is \<open>None\<close>; the database handle \<^verbatim>\<open>s->db\<close> is known by
  whether it is \<^verbatim>\<open>NULL\<close>.  \<open>custom_func\<close> runs the callback of a custom operation: it
  returns the results the callback pushed, with their queues.
\<close>

record 'e sqlite3 =
  sqlite3_open :: "string option \<Rightarrow> 'e \<Rightarrow> int \<times> 'e"
  sqlite3_open_v2 :: "string option \<Rightarrow> 64 word \<Rightarrow> 'e \<Rightarrow> int \<times> 'e"
  sqlite3_close :: "bool \<Rightarrow> 'e \<Rightarrow> 'e"
  sqlite3_busy_timeout :: "int \<Rightarrow> 'e \<Rightarrow> 'e"
  sqlite3_errmsg :: "bool \<Rightarrow> 'e \<Rightarrow> string"
  sqlite3_prepare_v2 :: "bool \<Rightarrow> string option \<Rightarrow> 'e \<Rightarrow> int \<times> nat option \<times> 'e"
  sqlite3_bind :: "nat option \<Rightarrow> nat \<Rightarrow> sqlasync_value_t \<Rightarrow> 'e \<Rightarrow> 'e"
  sqlite3_step :: "nat option \<Rightarrow> 'e \<Rightarrow> int \<times> 'e"
  sqlite3_columns :: "nat option \<Rightarrow> 'e \<Rightarrow> sqlasync_value_t list"
  sqlite3_reset :: "nat option \<Rightarrow> 'e \<Rightarrow> 'e"
  sqlite3_finalize :: "nat option \<Rightarrow> 'e \<Rightarrow> 'e"
  custom_func :: "nat option \<Rightarrow> bool \<Rightarrow> nat option \<Rightarrow> sqlasync_value_t list \<Rightarrow> 'e
                    \<Rightarrow> (nat option \<times> sqlasync_result_t) list \<times> 'e"

subsection \<open>Flags (sqlasync.h and the special operations of the implementation)\<close>

definition SQLASYNC_FREE :: "16 word" where "SQLASYNC_FREE = 1"
definition SQLASYNC_STATIC :: "16 word" where "SQLASYNC_STATIC = 2"
definition SQLASYNC_NEXT :: "16 word" where "SQLASYNC_NEXT = 4"
definition SQLASYNC_LAST :: "16 word" where "SQLASYNC_LAST = 8"
definition SQLASYNC_SINGLE :: "16 word" where "SQLASYNC_SINGLE = 12"
definition SQLASYNC_OPEN :: "16 word" where "SQLASYNC_OPEN = 256"
definition SQLASYNC_CLOSE :: "16 word" where "SQLASYNC_CLOSE = 512"
definition SQLASYNC_QUIT :: "16 word" where "SQLASYNC_QUIT = 768"
definition SQLASYNC_CUSTOM :: "16 word" where "SQLASYNC_CUSTOM = 1024"

text \<open>\<^verbatim>\<open>op->flags & SQLASYNC_SINGLE\<close>: the two chaining bits.\<close>

definition chain :: "16 word \<Rightarrow> 16 word" where
  "chain fl = fl AND SQLASYNC_SINGLE"

subsection \<open>Operations\<close>

text \<open>\<^verbatim>\<open>sqlasync_op_t\<close>; the field \<^verbatim>\<open>q\<close> is \<open>opq\<close>, \<^verbatim>\<open>numargs\<close> is the length of \<open>args\<close>.\<close>

record sqlasync_op_t =
  opq :: "nat option"
  str :: "string option"
  flags :: "16 word"
  args :: "sqlasync_value_t list"

definition sqlasync_op_create :: "nat option \<Rightarrow> string option \<Rightarrow> 16 word \<Rightarrow> sqlasync_value_t list \<Rightarrow> sqlasync_op_t" where
  "sqlasync_op_create qp s fl as = \<lparr>opq = qp, str = s, flags = fl, args = as\<rparr>"

text \<open>Reading \<^verbatim>\<open>op->args[i].val.i64\<close> and \<^verbatim>\<open>op->args[i].val.ptr\<close>.\<close>

definition arg_i64 :: "sqlasync_value_t list \<Rightarrow> nat \<Rightarrow> 64 word" where
  "arg_i64 as i = (if i < length as then (case as ! i of Integer n \<Rightarrow> n | _ \<Rightarrow> 0) else 0)"

definition arg_ptr :: "sqlasync_value_t list \<Rightarrow> nat \<Rightarrow> nat option" where
  "arg_ptr as i = (if i < length as then (case as ! i of Ptr p \<Rightarrow> p | _ \<Rightarrow> None) else None)"

subsection \<open>The connection\<close>

text \<open>
  Where a result pushed by the worker comes from: a row, the final status of a query,
  the result of an open, the closing result sent to the second queue when an open
  failed, the result of a close, the error of a commit that no query asked for, a
  result pushed by a custom callback.
\<close>

datatype origin =
    Row_result
  | Final_result
  | Open_result
  | Open_failed_closed
  | Close_result
  | Commit_error
  | Custom_result

record push =
  origin :: origin
  target :: "nat option"
  pushed_result :: sqlasync_result_t

text \<open>
  \<^verbatim>\<open>sqlasync_t\<close>, with the engine state, and with the calls of
  \<^verbatim>\<open>sqlasync_queue_result\<close> made so far in \<open>pushed\<close>.  The cached statements
  \<^verbatim>\<open>begin\<close>, \<^verbatim>\<open>commit\<close>, \<^verbatim>\<open>rollback\<close> are \<open>s_begin\<close>, \<open>s_commit\<close>, \<open>s_rollback\<close>.
  The deadline \<^verbatim>\<open>trans\<close> is left out: its expiry is an event given to the worker.
\<close>

record 'e sqlasync_t =
  transtimeout :: "int \<times> int"
  db :: bool
  dbqueue :: "nat option"
  s_begin :: "nat option"
  s_commit :: "nat option"
  s_rollback :: "nat option"
  intrans :: bool
  errtrans :: bool
  donext :: bool
  engine :: 'e
  pushed :: "push list"

definition sqlasync_create :: "(int \<times> int) option \<Rightarrow> 'e \<Rightarrow> 'e sqlasync_t" where
  "sqlasync_create tt e =
     \<lparr>transtimeout = (case tt of None \<Rightarrow> (0, 0) | Some t \<Rightarrow> t),
      db = False, dbqueue = None, s_begin = None, s_commit = None, s_rollback = None,
      intrans = False, errtrans = False, donext = False, engine = e, pushed = []\<rparr>"

definition sqlasync_havetranstimeout :: "'e sqlasync_t \<Rightarrow> bool" where
  "sqlasync_havetranstimeout s = (fst (transtimeout s) \<noteq> 0 \<or> snd (transtimeout s) \<noteq> 0)"

text \<open>The worker calls \<^verbatim>\<open>sqlasync_queue_result(q, r)\<close>.\<close>

definition send :: "origin \<Rightarrow> nat option \<Rightarrow> sqlasync_result_t \<Rightarrow> 'e sqlasync_t \<Rightarrow> 'e sqlasync_t" where
  "send og qp r s = s\<lparr>pushed := pushed s @ [\<lparr>origin = og, target = qp, pushed_result = r\<rparr>]\<rparr>"

subsection \<open>Outcomes\<close>

text \<open>
  A piece of the worker returns, or stops the process on a failed \<^verbatim>\<open>assert\<close>, or never
  returns (a busy loop that the engine never ends, a wait that nothing ends).
\<close>

datatype 'a outcome = Returns 'a | Assert_fails | Hangs

definition obind :: "'a outcome \<Rightarrow> ('a \<Rightarrow> 'b outcome) \<Rightarrow> 'b outcome" where
  "obind m f = (case m of Returns x \<Rightarrow> f x | Assert_fails \<Rightarrow> Assert_fails | Hangs \<Rightarrow> Hangs)"

definition of_option :: "'a option \<Rightarrow> 'a outcome" where
  "of_option m = (case m of None \<Rightarrow> Hangs | Some x \<Rightarrow> Returns x)"

subsection \<open>Binding and rows\<close>

primrec bind_from :: "'e sqlite3 \<Rightarrow> nat option \<Rightarrow> nat \<Rightarrow> sqlasync_value_t list \<Rightarrow> 'e \<Rightarrow> 'e" where
  "bind_from E st i [] e = e"
| "bind_from E st i (v # vs) e = bind_from E st (Suc i) vs (sqlite3_bind E st i v e)"

definition sqlasync_thread_bind :: "'e sqlite3 \<Rightarrow> sqlasync_op_t \<Rightarrow> nat option \<Rightarrow> 'e \<Rightarrow> 'e" where
  "sqlasync_thread_bind E op st e = bind_from E st 1 (args op) e"

definition sqlasync_thread_row :: "'e sqlite3 \<Rightarrow> nat option \<Rightarrow> nat option \<Rightarrow> 'e sqlasync_t \<Rightarrow> 'e sqlasync_t" where
  "sqlasync_thread_row E qp st s =
     (let vs = sqlite3_columns E st (engine s);
          r = sqlasync_result_create (word_of_int SQLITE_ROW) 0 (length vs)
      in send Row_result qp (r\<lparr>col := vs\<rparr>) s)"

subsection \<open>Begin, rollback, commit\<close>

text \<open>
  \<^verbatim>\<open>if(!s->begin) assert(sqlite3_prepare_v2(s->db, "BEGIN", -1, &s->begin, NULL) == SQLITE_OK);\<close>
  and the same for the other two cached statements.
\<close>

definition cached_stmt :: "'e sqlite3 \<Rightarrow> string \<Rightarrow> nat option \<Rightarrow> 'e sqlasync_t \<Rightarrow> (nat option \<times> 'e) outcome" where
  "cached_stmt E txt cached s =
     (if cached = None then
        (case sqlite3_prepare_v2 E (db s) (Some txt) (engine s) of
           (rc, st, e) \<Rightarrow> if rc = SQLITE_OK then Returns (st, e) else Assert_fails)
      else Returns (cached, engine s))"

definition sqlasync_thread_begin :: "'e sqlite3 \<Rightarrow> 'e sqlasync_t \<Rightarrow> 'e sqlasync_t outcome" where
  "sqlasync_thread_begin E s =
     obind (cached_stmt E ''BEGIN'' (s_begin s) s) (\<lambda>(st, e).
       Returns (s\<lparr>s_begin := st,
                  engine := sqlite3_reset E st (snd (sqlite3_step E st e)),
                  intrans := True\<rparr>))"

definition sqlasync_thread_rollback :: "'e sqlite3 \<Rightarrow> 'e sqlasync_t \<Rightarrow> 'e sqlasync_t outcome" where
  "sqlasync_thread_rollback E s =
     obind (cached_stmt E ''ROLLBACK'' (s_rollback s) s) (\<lambda>(st, e).
       Returns (s\<lparr>s_rollback := st,
                  engine := sqlite3_reset E st (snd (sqlite3_step E st e)),
                  intrans := False\<rparr>))"

text \<open>\<^verbatim>\<open>while((r = sqlite3_step(st)) == SQLITE_BUSY) ;\<close>\<close>

partial_function (option) step_retry :: "'e sqlite3 \<Rightarrow> nat option \<Rightarrow> 'e \<Rightarrow> (int \<times> 'e) option" where
  "step_retry E st e =
     (if fst (sqlite3_step E st e) = SQLITE_BUSY
      then step_retry E st (snd (sqlite3_step E st e))
      else Some (sqlite3_step E st e))"

declare step_retry.simps [code]

definition sqlasync_thread_commit :: "'e sqlite3 \<Rightarrow> 'e sqlasync_t \<Rightarrow> (int \<times> 'e sqlasync_t) outcome" where
  "sqlasync_thread_commit E s =
     obind (cached_stmt E ''COMMIT'' (s_commit s) s) (\<lambda>(st, e).
     obind (of_option (step_retry E st e)) (\<lambda>(r, e1).
     obind (let s1 = s\<lparr>s_commit := st, engine := sqlite3_reset E st e1\<rparr>
            in if r \<noteq> SQLITE_DONE then sqlasync_thread_rollback E s1 else Returns s1) (\<lambda>s2.
       Returns (r, s2\<lparr>intrans := False\<rparr>))))"

subsection \<open>Executing a query\<close>

text \<open>
  The loop \<^verbatim>\<open>while(r == SQLITE_ROW)\<close> of \<^verbatim>\<open>sqlasync_thread_exec\<close>: a step (retried
  while busy when no transaction is open), and the row sent to the queue.
\<close>

partial_function (option) exec_rows :: "'e sqlite3 \<Rightarrow> nat option \<Rightarrow> nat option \<Rightarrow> 'e sqlasync_t \<Rightarrow> (int \<times> 'e sqlasync_t) option" where
  "exec_rows E qp st s =
     (case (if intrans s then Some (sqlite3_step E st (engine s)) else step_retry E st (engine s)) of
        None \<Rightarrow> None
      | Some x \<Rightarrow>
          if fst x = SQLITE_ROW
          then exec_rows E qp st (sqlasync_thread_row E qp st (s\<lparr>engine := snd x\<rparr>))
          else Some (fst x, s\<lparr>engine := snd x\<rparr>))"

declare exec_rows.simps [code]

text \<open>The result is the status, the statement handle left in \<^verbatim>\<open>*st\<close>, and the state.\<close>

definition sqlasync_thread_exec :: "'e sqlite3 \<Rightarrow> 'e sqlasync_t \<Rightarrow> sqlasync_op_t \<Rightarrow> (int \<times> nat option \<times> 'e sqlasync_t) outcome" where
  "sqlasync_thread_exec E s op =
     (case sqlite3_prepare_v2 E (db s) (str op) (engine s) of
        (r, st, e) \<Rightarrow>
          if r \<noteq> SQLITE_OK
          then Returns (r, st, s\<lparr>engine := (if st \<noteq> None then sqlite3_finalize E st e else e)\<rparr>)
          else if st = None then Returns (SQLITE_DONE, st, s\<lparr>engine := e\<rparr>)
          else obind (of_option (exec_rows E (opq op) st (s\<lparr>engine := sqlasync_thread_bind E op st e\<rparr>)))
                 (\<lambda>(r1, s1). Returns (r1, st, s1)))"

definition sqlasync_thread_final :: "'e sqlite3 \<Rightarrow> 'e sqlasync_t \<Rightarrow> sqlasync_op_t \<Rightarrow> int \<Rightarrow> 'e sqlasync_t" where
  "sqlasync_thread_final E s op r =
     (let okay = (r = SQLITE_OK \<or> r = SQLITE_DONE);
          res = sqlasync_result_create (word_of_int r) 1 (if okay then 0 else 1);
          res1 = (if \<not> okay
                  then res\<lparr>col := (col res)[0 := sqlasync_text (sqlite3_errmsg E (db s) (engine s))]\<rparr>
                  else res)
      in send Final_result (opq op) res1 s)"

text \<open>The label \<^verbatim>\<open>final:\<close> of \<^verbatim>\<open>sqlasync_thread_sql\<close>.\<close>

definition sql_final :: "'e sqlite3 \<Rightarrow> sqlasync_op_t \<Rightarrow> int \<times> nat option \<times> 'e sqlasync_t \<Rightarrow> 'e sqlasync_t" where
  "sql_final E op x =
     (case x of (r, st, s) \<Rightarrow>
        (let s1 = sqlasync_thread_final E s op r
         in if st \<noteq> None
            then s1\<lparr>engine := sqlite3_finalize E st (sqlite3_reset E st (engine s1))\<rparr>
            else s1))"

definition sqlasync_thread_sql :: "'e sqlite3 \<Rightarrow> 'e sqlasync_t \<Rightarrow> sqlasync_op_t \<Rightarrow> 'e sqlasync_t outcome" where
  "sqlasync_thread_sql E s op =
     (if chain (flags op) = SQLASYNC_SINGLE then
        obind (sqlasync_thread_exec E s op) (\<lambda>x. Returns (sql_final E op x))
      else if errtrans s then
        Returns (sql_final E op
          (SQLITE_ERROR, None,
           if chain (flags op) \<noteq> SQLASYNC_NEXT then s\<lparr>errtrans := False\<rparr> else s))
      else if chain (flags op) = SQLASYNC_LAST
              \<or> (\<not> sqlasync_havetranstimeout s \<and> donext s \<and> chain (flags op) \<noteq> SQLASYNC_NEXT) then
        obind (sqlasync_thread_exec E s op) (\<lambda>(r, st, s1).
        obind (if intrans s1 \<and> r \<noteq> SQLITE_DONE then sqlasync_thread_rollback E s1 else Returns s1) (\<lambda>s2.
        obind (if intrans s2 \<and> r = SQLITE_DONE then sqlasync_thread_commit E s2 else Returns (r, s2)) (\<lambda>(r3, s3).
          Returns (sql_final E op (r3, st, s3)))))
      else
        obind (if \<not> intrans s \<and> (chain (flags op) = SQLASYNC_NEXT \<or> sqlasync_havetranstimeout s)
               then sqlasync_thread_begin E s else Returns s) (\<lambda>s0.
        obind (sqlasync_thread_exec E s0 op) (\<lambda>(r, st, s1).
        obind (if st \<noteq> None \<and> r \<noteq> SQLITE_DONE
               then obind (if intrans s1 then sqlasync_thread_rollback E s1 else Returns s1) (\<lambda>s2.
                      Returns (if chain (flags op) = SQLASYNC_NEXT then s2\<lparr>errtrans := True\<rparr> else s2))
               else Returns s1) (\<lambda>s3.
          Returns (sql_final E op (r, st, s3))))))"

subsection \<open>Open and close\<close>

definition sqlasync_thread_open :: "'e sqlite3 \<Rightarrow> 'e sqlasync_t \<Rightarrow> sqlasync_op_t \<Rightarrow> 'e sqlasync_t outcome" where
  "sqlasync_thread_open E s op =
     (if db s then Assert_fails
      else
        (case (if arg_i64 (args op) 0 \<noteq> 0
               then sqlite3_open_v2 E (str op) (arg_i64 (args op) 0) (engine s)
               else sqlite3_open E (str op) (engine s)) of
           (r, e) \<Rightarrow>
             if r \<noteq> 0 then
               (let res = sqlasync_result_create (word_of_int r) 1 1;
                    res1 = res\<lparr>col := (col res)[0 := sqlasync_text (sqlite3_errmsg E True e)]\<rparr>;
                    s1 = send Open_result (opq op) res1 (s\<lparr>db := False, engine := sqlite3_close E True e\<rparr>)
                in Returns (send Open_failed_closed (arg_ptr (args op) 1)
                              (sqlasync_result_create (word_of_int SQLITE_OK) 1 0) s1))
             else
               Returns (send Open_result (opq op) (sqlasync_result_create (word_of_int r) 1 0)
                          (s\<lparr>db := True, dbqueue := arg_ptr (args op) 1,
                             engine := sqlite3_busy_timeout E 10 e\<rparr>))))"

definition sqlasync_thread_close :: "'e sqlite3 \<Rightarrow> 'e sqlasync_t \<Rightarrow> 'e sqlasync_t" where
  "sqlasync_thread_close E s =
     (let e1 = sqlite3_finalize E (s_begin s) (engine s);
          e2 = sqlite3_finalize E (s_commit s) e1;
          e3 = sqlite3_finalize E (s_rollback s) e2;
          e4 = sqlite3_close E (db s) e3;
          s1 = send Close_result (dbqueue s) (sqlasync_result_create (word_of_int SQLITE_OK) 1 0)
                 (s\<lparr>engine := e4\<rparr>)
      in s1\<lparr>db := False, dbqueue := None, s_begin := None, s_commit := None, s_rollback := None\<rparr>)"

subsection \<open>The thread\<close>

text \<open>
  \<^verbatim>\<open>sqlasync_thread_getnext\<close> returns the next operation of the FIFO, or \<^verbatim>\<open>NULL\<close> when
  the FIFO stayed empty until the deadline of the open transaction.  The worker is given
  what the call returns, one event for each turn of its loop: \<open>Some op\<close>, or \<open>None\<close> for
  an empty FIFO.  With an empty FIFO the call fails its assertion when the previous
  operation was a \<^verbatim>\<open>SQLASYNC_NEXT\<close>, returns \<^verbatim>\<open>NULL\<close> at the deadline when a transaction
  is open, and otherwise waits without a deadline.
\<close>

definition sqlasync_thread_getnext :: "'e sqlasync_t \<Rightarrow> sqlasync_op_t option \<Rightarrow> sqlasync_op_t option outcome" where
  "sqlasync_thread_getnext s ev =
     (case ev of
        Some op \<Rightarrow> Returns (Some op)
      | None \<Rightarrow> if donext s then Assert_fails else if intrans s then Returns None else Hangs)"

text \<open>The condition of \<^verbatim>\<open>/* If we need to commit, do so. */\<close>.\<close>

definition commit_needed :: "'e sqlasync_t \<Rightarrow> sqlasync_op_t option \<Rightarrow> bool" where
  "commit_needed s opo =
     (case opo of
        None \<Rightarrow> True
      | Some op \<Rightarrow>
          intrans s \<and> (flags op = SQLASYNC_OPEN \<or> flags op = SQLASYNC_CLOSE
            \<or> flags op = SQLASYNC_QUIT \<or> flags op = SQLASYNC_CUSTOM
            \<or> chain (flags op) = SQLASYNC_SINGLE))"

definition deferred_commit :: "'e sqlite3 \<Rightarrow> 'e sqlasync_t \<Rightarrow> 'e sqlasync_t outcome" where
  "deferred_commit E s =
     (if donext s then Assert_fails
      else obind (sqlasync_thread_commit E s) (\<lambda>(r, s1).
             if r \<noteq> SQLITE_DONE then
               (let res = sqlasync_result_create (word_of_int r) 0 1;
                    res1 = res\<lparr>col := (col res)[0 := sqlasync_text (sqlite3_errmsg E (db s1) (engine s1))]\<rparr>
                in Returns (send Commit_error (dbqueue s1) res1 s1))
             else Returns s1))"

text \<open>
  One turn of the loop \<^verbatim>\<open>while(1)\<close> of \<^verbatim>\<open>sqlasync_thread\<close>; the boolean tells whether
  the loop goes on (\<open>False\<close> after \<^verbatim>\<open>break\<close>).
\<close>

definition thread_turn :: "'e sqlite3 \<Rightarrow> sqlasync_op_t option \<Rightarrow> 'e sqlasync_t \<Rightarrow> (bool \<times> 'e sqlasync_t) outcome" where
  "thread_turn E ev s =
     obind (sqlasync_thread_getnext s ev) (\<lambda>opo.
     obind (if commit_needed s opo then deferred_commit E s else Returns s) (\<lambda>s1.
       (case opo of
          None \<Rightarrow> Returns (True, s1)
        | Some op \<Rightarrow>
            if flags op = SQLASYNC_OPEN then
              obind (sqlasync_thread_open E s1 op) (\<lambda>s2. Returns (True, s2))
            else if flags op = SQLASYNC_CLOSE then Returns (True, sqlasync_thread_close E s1)
            else if flags op = SQLASYNC_QUIT then Returns (False, s1)
            else if flags op = SQLASYNC_CUSTOM then
              (case custom_func E (arg_ptr (args op) 0) (db s1) (opq op) (tl (args op)) (engine s1) of
                 (rs, e) \<Rightarrow>
                   Returns (True, fold (\<lambda>x. send Custom_result (fst x) (snd x)) rs (s1\<lparr>engine := e\<rparr>)))
            else
              obind (sqlasync_thread_sql E s1 op) (\<lambda>s2.
                Returns (True, s2\<lparr>donext := (chain (flags op) = SQLASYNC_NEXT)\<rparr>)))))"

text \<open>The thread, given the events of its turns; after the loop the connection is closed.\<close>

fun sqlasync_thread :: "'e sqlite3 \<Rightarrow> sqlasync_op_t option list \<Rightarrow> 'e sqlasync_t \<Rightarrow> 'e sqlasync_t outcome" where
  "sqlasync_thread E [] s = Returns s"
| "sqlasync_thread E (ev # evs) s =
     (case thread_turn E ev s of
        Returns x \<Rightarrow> if fst x then sqlasync_thread E evs (snd x)
                     else Returns (sqlasync_thread_close E (snd x))
      | Assert_fails \<Rightarrow> Assert_fails
      | Hangs \<Rightarrow> Hangs)"

subsection \<open>Submitting operations\<close>

text \<open>
  The public functions append an operation to the FIFO of the connection (a list) and
  count it on its queue.
\<close>

definition sqlasync_sqlv_unlocked :: "nat option \<Rightarrow> 16 word \<Rightarrow> string option \<Rightarrow> sqlasync_value_t list
    \<Rightarrow> world \<times> sqlasync_op_t list \<Rightarrow> nat option \<times> world \<times> sqlasync_op_t list" where
  "sqlasync_sqlv_unlocked qp fl query binds x =
     (let op = sqlasync_op_create qp query fl binds
      in (qp, sqlasync_queue_schedule qp (fst x), snd x @ [op]))"

definition sqlasync_open_submit :: "nat option \<Rightarrow> nat option \<Rightarrow> string option \<Rightarrow> 64 word
    \<Rightarrow> world \<times> sqlasync_op_t list \<Rightarrow> nat option \<times> world \<times> sqlasync_op_t list" where
  "sqlasync_open_submit qp errq filename fl x =
     (let op = sqlasync_op_create qp filename SQLASYNC_OPEN [sqlasync_int fl, Ptr errq]
      in (qp, sqlasync_queue_schedule errq (sqlasync_queue_schedule qp (fst x)), snd x @ [op]))"

definition sqlasync_close_submit :: "world \<times> sqlasync_op_t list \<Rightarrow> world \<times> sqlasync_op_t list" where
  "sqlasync_close_submit x = (fst x, snd x @ [sqlasync_op_create None None SQLASYNC_CLOSE []])"

definition sqlasync_custom :: "nat option \<Rightarrow> nat option \<Rightarrow> sqlasync_value_t list
    \<Rightarrow> world \<times> sqlasync_op_t list \<Rightarrow> nat option \<times> world \<times> sqlasync_op_t list" where
  "sqlasync_custom qp f vals x =
     (let op = sqlasync_op_create qp None SQLASYNC_CUSTOM (Ptr f # vals)
      in (qp, sqlasync_queue_schedule qp (fst x), snd x @ [op]))"

definition sqlasync_destroy_submit :: "world \<times> sqlasync_op_t list \<Rightarrow> world \<times> sqlasync_op_t list" where
  "sqlasync_destroy_submit x = (fst x, snd x @ [sqlasync_op_create None None SQLASYNC_QUIT []])"

section \<open>Notions used in the statements\<close>

subsection \<open>Queues\<close>

text \<open>How often the wakeup callback has been invoked.\<close>

definition wakeups :: "world \<Rightarrow> nat" where
  "wakeups w = length (filter (\<lambda>e. e = Wakeup_called) (trace w))"


text \<open>
  The results of queue \<open>q\<close> that no consumer has taken yet: those buffered in the queue
  and those of the queue in the FIFO of the wakeup object.
\<close>

definition undelivered :: "world \<Rightarrow> nat \<Rightarrow> nat" where
  "undelivered w q =
     length (first (queues w q)) + length (filter (\<lambda>x. fst x = q) (wfirst (wakeup w)))"

definition queue_ok :: "world \<Rightarrow> bool" where
  "queue_ok w =
     (\<forall>q. unat (numresults (queues w q)) = undelivered w q
        \<and> numresults (queues w q) \<le> maxresults (queues w q))"

text \<open>Queue pointers not handed out yet point to zeroed memory.\<close>

definition fresh_ok :: "world \<Rightarrow> bool" where
  "fresh_ok w = (\<forall>q. nextq w \<le> q \<longrightarrow> maxresults (queues w q) = 0)"

definition world_inv :: "world \<Rightarrow> bool" where
  "world_inv w = (queue_ok w \<and> fresh_ok w)"

definition caps_kept :: "world \<Rightarrow> world \<Rightarrow> bool" where
  "caps_kept w w' = (nextq w' = nextq w \<and> (\<forall>q. maxresults (queues w' q) = maxresults (queues w q)))"

definition caps_grow :: "world \<Rightarrow> world \<Rightarrow> bool" where
  "caps_grow w w' =
     (nextq w \<le> nextq w' \<and> (\<forall>q. q < nextq w \<longrightarrow> maxresults (queues w' q) = maxresults (queues w q)))"

subsection \<open>The worker\<close>

text \<open>Pushes that are rows sent to the queue \<open>qp\<close>.\<close>

definition rows_to :: "nat option \<Rightarrow> push list \<Rightarrow> bool" where
  "rows_to qp ps =
     (\<forall>p \<in> set ps. origin p = Row_result \<and> target p = qp \<and> \<not> lastres (pushed_result p))"

text \<open>The engine after \<open>n\<close> steps of the statement \<open>st\<close>.\<close>

primrec steps :: "'e sqlite3 \<Rightarrow> nat option \<Rightarrow> nat \<Rightarrow> 'e \<Rightarrow> 'e" where
  "steps E st 0 e = e"
| "steps E st (Suc n) e = steps E st n (snd (sqlite3_step E st e))"

text \<open>
  The final status that \<^verbatim>\<open>sqlasync_thread_final\<close> pushes for the status \<open>r\<close>: the status
  as an \<^verbatim>\<open>unsigned short\<close>, \<^verbatim>\<open>last\<close> set, and the message of the engine as the only
  column unless the status is \<^verbatim>\<open>SQLITE_OK\<close> or \<^verbatim>\<open>SQLITE_DONE\<close>.
\<close>

definition final_push :: "'e sqlite3 \<Rightarrow> 'e sqlasync_t \<Rightarrow> sqlasync_op_t \<Rightarrow> int \<Rightarrow> push" where
  "final_push E s op r =
     \<lparr>origin = Final_result, target = opq op,
      pushed_result = \<lparr>result = r mod 65536, lastres = True,
        col = (if r = SQLITE_OK \<or> r = SQLITE_DONE then []
               else [Text (sqlite3_errmsg E (db s) (engine s))])\<rparr>\<rparr>"

text \<open>
  What is seen of an outcome: the pushes (origin, queue, status, \<^verbatim>\<open>last\<close>, number of
  columns), the engine, and the flags \<^verbatim>\<open>intrans\<close>, \<^verbatim>\<open>errtrans\<close>, \<^verbatim>\<open>donext\<close>.
\<close>

definition summary :: "'e sqlasync_t outcome
    \<Rightarrow> ((origin \<times> nat option \<times> int \<times> bool \<times> nat) list \<times> 'e \<times> bool \<times> bool \<times> bool) outcome" where
  "summary m =
     obind m (\<lambda>s. Returns
       (map (\<lambda>p. (origin p, target p, result (pushed_result p), lastres (pushed_result p),
                   numcol (pushed_result p))) (pushed s),
        engine s, intrans s, errtrans s, donext s))"

text \<open>A final status sent to the queue \<open>qp\<close>.\<close>

definition final_to :: "nat option \<Rightarrow> push \<Rightarrow> bool" where
  "final_to qp p = (origin p = Final_result \<and> target p = qp \<and> lastres (pushed_result p))"

text \<open>The fields of the connection that executing a query leaves alone.\<close>

definition kept :: "'e sqlasync_t \<Rightarrow> 'e sqlasync_t \<Rightarrow> bool" where
  "kept s s' = (transtimeout s' = transtimeout s \<and> db s' = db s \<and> dbqueue s' = dbqueue s
     \<and> donext s' = donext s)"

text \<open>No error of a deferred commit has been pushed.\<close>

definition no_commit_error :: "'e sqlasync_t \<Rightarrow> bool" where
  "no_commit_error s = (\<forall>p \<in> set (pushed s). origin p \<noteq> Commit_error)"

text \<open>
  What holds of a connection created without a transaction timeout, between two turns
  of the thread: a transaction is open only while the next query of the chain is awaited.
\<close>

definition untimed_inv :: "'e sqlasync_t \<Rightarrow> bool" where
  "untimed_inv s = (\<not> sqlasync_havetranstimeout s \<and> (intrans s \<longrightarrow> donext s)
     \<and> (errtrans s \<longrightarrow> \<not> intrans s) \<and> no_commit_error s)"

text \<open>
  The part of a turn of \<^verbatim>\<open>sqlasync_thread\<close> that follows the deferred commit: the special
  operations, or \<^verbatim>\<open>sqlasync_thread_sql\<close>.
\<close>

definition turn_op :: "'e sqlite3 \<Rightarrow> sqlasync_op_t \<Rightarrow> 'e sqlasync_t \<Rightarrow> (bool \<times> 'e sqlasync_t) outcome" where
  "turn_op E op s1 =
     (if flags op = SQLASYNC_OPEN then
        obind (sqlasync_thread_open E s1 op) (\<lambda>s2. Returns (True, s2))
      else if flags op = SQLASYNC_CLOSE then Returns (True, sqlasync_thread_close E s1)
      else if flags op = SQLASYNC_QUIT then Returns (False, s1)
      else if flags op = SQLASYNC_CUSTOM then
        (case custom_func E (arg_ptr (args op) 0) (db s1) (opq op) (tl (args op)) (engine s1) of
           (rs, e) \<Rightarrow>
             Returns (True, fold (\<lambda>x. send Custom_result (fst x) (snd x)) rs (s1\<lparr>engine := e\<rparr>)))
      else
        obind (sqlasync_thread_sql E s1 op) (\<lambda>s2.
          Returns (True, s2\<lparr>donext := (chain (flags op) = SQLASYNC_NEXT)\<rparr>)))"

text \<open>
  The pushes of a turn that starts in \<open>s\<close> and ends in \<open>s'\<close>, and those of them with
  \<^verbatim>\<open>last\<close> set.
\<close>

definition new_pushes :: "'e sqlasync_t \<Rightarrow> 'e sqlasync_t \<Rightarrow> push list" where
  "new_pushes s s' = drop (length (pushed s)) (pushed s')"



text \<open>What is seen of a turn of the thread.\<close>

definition turn_summary :: "(bool \<times> 'e sqlasync_t) outcome
    \<Rightarrow> ((origin \<times> nat option \<times> int \<times> bool \<times> nat) list \<times> 'e \<times> bool \<times> bool \<times> bool) outcome" where
  "turn_summary m = summary (obind m (\<lambda>x. Returns (snd x)))"

text \<open>
  The connection \<open>s\<close> with every result pushed after the first \<open>n\<close> addressed to the queue
  \<^verbatim>\<open>NULL\<close>; \<open>muted n s t\<close> when \<open>t\<close> is \<open>s\<close> so changed.
\<close>

definition discard_from :: "nat \<Rightarrow> 'e sqlasync_t \<Rightarrow> 'e sqlasync_t" where
  "discard_from n s =
     s\<lparr>pushed := take n (pushed s) @ map (\<lambda>p. p\<lparr>target := None\<rparr>) (drop n (pushed s))\<rparr>"

definition muted :: "nat \<Rightarrow> 'e sqlasync_t \<Rightarrow> 'e sqlasync_t \<Rightarrow> bool" where
  "muted n s t = (n \<le> length (pushed s) \<and> t = discard_from n s)"

text \<open>
  Two pieces of the worker end alike (both return, with related values, or both fail an
  assertion, or both never return).
\<close>

definition osim :: "('a \<Rightarrow> 'b \<Rightarrow> bool) \<Rightarrow> 'a outcome \<Rightarrow> 'b outcome \<Rightarrow> bool" where
  "osim R m m' =
     (case m of Returns x \<Rightarrow> (\<exists>y. m' = Returns y \<and> R x y)
      | Assert_fails \<Rightarrow> m' = Assert_fails
      | Hangs \<Rightarrow> m' = Hangs)"

text \<open>The calls of \<^verbatim>\<open>sqlasync_queue_result\<close> that the worker makes for a list of pushes.\<close>

primrec deliver :: "push list \<Rightarrow> world \<Rightarrow> world option" where
  "deliver [] w = Some w"
| "deliver (p # ps) w =
     (case sqlasync_queue_result (target p) (pushed_result p) w of
        None \<Rightarrow> None
      | Some w1 \<Rightarrow> deliver ps w1)"


section \<open>Concrete inputs\<close>

subsection \<open>Queues\<close>

definition demo_row :: sqlasync_result_t where
  "demo_row = \<lparr>result = 100, lastres = False, col = [Integer 1]\<rparr>"

definition demo_done :: sqlasync_result_t where
  "demo_done = \<lparr>result = 101, lastres = True, col = []\<rparr>"

text \<open>A result callback that takes one result.\<close>

definition demo_cb :: "nat \<Rightarrow> world \<Rightarrow> call list" where
  "demo_cb q w = [Get q]"





text \<open>A synchronous queue of capacity 1 that holds one row.\<close>

definition demo_full_actions :: "action list" where
  "demo_full_actions = [Call (New_sync 1), Call (Schedule (Some 0)), Call (Result (Some 0) demo_row)]"

definition demo_full :: world where
  "demo_full = the (run_actions demo_cb demo_full_actions (world_init False))"

subsection \<open>An engine and operations\<close>

text \<open>
  A small engine.  Its state is the list of the statements stepped so far.  The
  statement \<^verbatim>\<open>bad\<close> cannot be prepared, \<^verbatim>\<open>fail\<close> fails when stepped, \<^verbatim>\<open>select\<close> gives one
  row, \<^verbatim>\<open>busy\<close> is busy twice, \<^verbatim>\<open>stuck\<close> is busy for ever, and \<^verbatim>\<open>COMMIT\<close> fails once
  \<^verbatim>\<open>poison\<close> has run.
\<close>

definition toy_stmt :: "string \<Rightarrow> nat" where
  "toy_stmt txt =
     (if txt = ''BEGIN'' then 1 else if txt = ''COMMIT'' then 2 else if txt = ''ROLLBACK'' then 3
      else if txt = ''fail'' then 4 else if txt = ''select'' then 5 else if txt = ''busy'' then 6
      else if txt = ''poison'' then 7 else if txt = ''stuck'' then 9 else 8)"

definition toy_step :: "nat option \<Rightarrow> nat list \<Rightarrow> int \<times> nat list" where
  "toy_step st e =
     (if st = Some 4 then (19, e @ [4])
      else if st = Some 5 then (if e \<noteq> [] \<and> last e = 5 then (101, e @ [0]) else (100, e @ [5]))
      else if st = Some 6 then (if length (filter (\<lambda>x. x = 6) e) < 2 then (5, e @ [6]) else (101, e @ [0]))
      else if st = Some 2 then (if 7 \<in> set e then (1, e @ [2]) else (101, e @ [2]))
      else if st = Some 9 then (5, e)
      else if st = None then (21, e)
      else (101, e @ [the st]))"

definition toy :: "nat list sqlite3" where
  "toy = \<lparr>sqlite3_open = (\<lambda>fn e. (if fn = Some ''missing'' then 14 else 0, e)),
          sqlite3_open_v2 = (\<lambda>fn fl e. (if fn = Some ''missing'' then 14 else 0, e)),
          sqlite3_close = (\<lambda>d e. e),
          sqlite3_busy_timeout = (\<lambda>n e. e),
          sqlite3_errmsg = (\<lambda>d e. ''error''),
          sqlite3_prepare_v2 = (\<lambda>d t e.
             case t of None \<Rightarrow> (21, None, e)
             | Some txt \<Rightarrow> if txt = ''bad'' then (1, None, e)
                          else if txt = [] then (0, None, e)
                          else (0, Some (toy_stmt txt), e)),
          sqlite3_bind = (\<lambda>st i v e. e),
          sqlite3_step = toy_step,
          sqlite3_columns = (\<lambda>st e. [Integer 1]),
          sqlite3_reset = (\<lambda>st e. e),
          sqlite3_finalize = (\<lambda>st e. e),
          custom_func = (\<lambda>f d q vs e. ([], e))\<rparr>"

definition toy_open :: sqlasync_op_t where
  "toy_open = sqlasync_op_create (Some 1) (Some '':memory:'') SQLASYNC_OPEN [sqlasync_int 0, Ptr (Some 9)]"

definition toy_sql :: "16 word \<Rightarrow> string \<Rightarrow> sqlasync_op_t" where
  "toy_sql fl txt = sqlasync_op_create (Some 2) (Some txt) fl []"


text \<open>
  The connection after an open and one \<^verbatim>\<open>SQLASYNC_NEXT\<close> query that succeeded
  (\<open>demo_chain\<close>), and after an open and one \<^verbatim>\<open>SQLASYNC_NEXT\<close> query that failed
  when stepped (\<open>demo_aborted\<close>); no transaction timeout.
\<close>

definition demo_open_push :: push where
  "demo_open_push = \<lparr>origin = Open_result, target = Some 1,
     pushed_result = \<lparr>result = 0, lastres = True, col = []\<rparr>\<rparr>"

definition demo_chain :: "nat list sqlasync_t" where
  "demo_chain =
     \<lparr>transtimeout = (0, 0), db = True, dbqueue = Some 9,
      s_begin = Some 1, s_commit = None, s_rollback = None,
      intrans = True, errtrans = False, donext = True, engine = [1, 8],
      pushed = [demo_open_push,
        \<lparr>origin = Final_result, target = Some 2,
          pushed_result = \<lparr>result = 101, lastres = True, col = []\<rparr>\<rparr>]\<rparr>"

definition demo_aborted :: "nat list sqlasync_t" where
  "demo_aborted =
     \<lparr>transtimeout = (0, 0), db = True, dbqueue = Some 9,
      s_begin = Some 1, s_commit = None, s_rollback = Some 3,
      intrans = False, errtrans = True, donext = True, engine = [1, 4, 3],
      pushed = [demo_open_push,
        \<lparr>origin = Final_result, target = Some 2,
          pushed_result = \<lparr>result = 19, lastres = True, col = [Text ''error'']\<rparr>\<rparr>]\<rparr>"
text \<open>
  The connection after a successful open, without and with a transaction timeout (the
  latter after a query whose commit will fail), and two special operations.
\<close>

definition demo_opened :: "nat list sqlasync_t" where
  "demo_opened =
     \<lparr>transtimeout = (0, 0), db = True, dbqueue = Some 9,
      s_begin = None, s_commit = None, s_rollback = None,
      intrans = False, errtrans = False, donext = False, engine = [],
      pushed = [demo_open_push]\<rparr>"

definition demo_timed :: "nat list sqlasync_t" where
  "demo_timed =
     \<lparr>transtimeout = (0, 100), db = True, dbqueue = Some 9,
      s_begin = Some 1, s_commit = None, s_rollback = None,
      intrans = True, errtrans = False, donext = False, engine = [1, 7],
      pushed = [demo_open_push,
        \<lparr>origin = Final_result, target = Some 2,
          pushed_result = \<lparr>result = 101, lastres = True, col = []\<rparr>\<rparr>]\<rparr>"

definition toy_close :: sqlasync_op_t where
  "toy_close = sqlasync_op_create None None SQLASYNC_CLOSE []"

definition toy_custom :: sqlasync_op_t where
  "toy_custom = sqlasync_op_create (Some 2) None SQLASYNC_CUSTOM [Ptr (Some 0), sqlasync_int 3]"

text \<open>The connection after a query submitted with the queue \<^verbatim>\<open>NULL\<close>.\<close>

definition demo_discarded :: "nat list sqlasync_t" where
  "demo_discarded =
     \<lparr>transtimeout = (0, 0), db = True, dbqueue = Some 9,
      s_begin = None, s_commit = None, s_rollback = None,
      intrans = False, errtrans = False, donext = False, engine = [5, 0],
      pushed = [demo_open_push,
        \<lparr>origin = Row_result, target = None, pushed_result = demo_row\<rparr>,
        \<lparr>origin = Final_result, target = None, pushed_result = demo_done\<rparr>]\<rparr>"


section \<open>Lemmas on the queues\<close>




lemma setq_sel [simp]:
  "wakeup (setq q Q w) = wakeup w" "trace (setq q Q w) = trace w"
  "nextq (setq q Q w) = nextq w" "queues (setq q Q w) = (queues w)(q := Q)"
  by (simp_all add: setq_def)

lemma emit_sel [simp]:
  "wakeup (emit e w) = wakeup w" "trace (emit e w) = trace w @ [e]"
  "nextq (emit e w) = nextq w" "queues (emit e w) = queues w"
  by (simp_all add: emit_def)

lemma wakeups_simps [simp]:
  "wakeups (setq q Q w) = wakeups w"
  "wakeups (emit e w) = (if e = Wakeup_called then Suc (wakeups w) else wakeups w)"
  "wakeups (w\<lparr>wakeup := W\<rparr>) = wakeups w"
  "wakeups (w\<lparr>nextq := n\<rparr>) = wakeups w"
  "wakeups (w\<lparr>queues := qs\<rparr>) = wakeups w"
  by (simp_all add: wakeups_def)




















lemma word_inc:
  fixes n :: uint
  assumes "n < m"
  shows "unat (n + 1) = Suc (unat n)" and "n + 1 \<le> m"
  using assms by unat_arith+

lemma word_dec:
  fixes n :: uint
  assumes "unat n = Suc k"
  shows "unat (n - 1) = k" and "n - 1 \<le> n"
  using assms by unat_arith+

lemma word_dec_le:
  fixes n :: uint
  shows "unat n = Suc k \<Longrightarrow> n \<le> m \<Longrightarrow> n - 1 \<le> m" "unat n = Suc k \<Longrightarrow> n \<le> m \<Longrightarrow> n - 1 < m"
  by unat_arith+

lemma undelivered_simps [simp]:
  "undelivered (emit e w) q = undelivered w q"
  "undelivered (w\<lparr>trace := t\<rparr>) q = undelivered w q"
  "undelivered (w\<lparr>nextq := n\<rparr>) q = undelivered w q"
  by (simp_all add: undelivered_def emit_def)

lemma queue_ok_simps [simp]:
  "queue_ok (emit e w) = queue_ok w"
  "queue_ok (w\<lparr>trace := t\<rparr>) = queue_ok w"
  "queue_ok (w\<lparr>nextq := n\<rparr>) = queue_ok w"
  by (simp_all add: queue_ok_def)

lemma queue_ok_init: "queue_ok (world_init s)"
  by (simp add: queue_ok_def world_init_def undelivered_def calloc_queue_def sqlasync_wakeup_create_def)

lemma result_final_ok [simp]: "queue_ok (result_final sw sf q w) = queue_ok w"
  by (simp add: result_final_def Let_def sqlasync_queue_free_def queue_ok_def undelivered_def)

lemma result_destroyed_ok: "queue_ok w \<Longrightarrow> queue_ok (result_destroyed q r w)"
  by (simp add: result_destroyed_def Let_def sqlasync_result_free_def)
     (simp add: queue_ok_def undelivered_def)

lemma result_deliver_ok:
  assumes "queue_ok w" "numresults (queues w q) < maxresults (queues w q)"
  shows "queue_ok (result_deliver q r w)"
  using assms word_inc [OF assms(2)]
  by (simp add: result_deliver_def Let_def)
     (auto simp add: queue_ok_def undelivered_def filter_map comp_def)



lemma queue_get_taken_ok:
  assumes "\<forall>q'. unat (numresults (queues w q')) = undelivered w q' + (if q' = q then 1 else 0)"
    and "\<forall>q'. numresults (queues w q') \<le> maxresults (queues w q')"
  shows "queue_ok (snd (queue_get_taken q r w))"
proof -
  have "unat (numresults (queues w q)) = Suc (undelivered w q)"
    using assms(1) by simp
  from word_dec [OF this] word_dec_le(1) [OF this] assms show ?thesis
    by (simp add: queue_get_taken_def Let_def)
       (auto simp add: queue_ok_def undelivered_def)
qed

lemma queue_get_ok:
  assumes "queue_ok w" "sqlasync_queue_get q w = Some x"
  shows "queue_ok (snd x)"
proof (cases "sync (queues w q)")
  case True
  with assms(2) obtain r rs where f: "first (queues w q) = r # rs"
    and x: "x = queue_get_taken q r (setq q ((queues w q)\<lparr>first := rs\<rparr>) w)"
    by (auto simp: sqlasync_queue_get_def Let_def split: list.splits)
  show ?thesis
    unfolding x
    by (rule queue_get_taken_ok) (use assms(1) f in \<open>auto simp: queue_ok_def undelivered_def\<close>)
next
  case False
  show ?thesis
  proof (cases "\<exists>r rs. wfirst (wakeup w) = (q, r) # rs")
    case True
    then obtain r rs where f: "wfirst (wakeup w) = (q, r) # rs" by blast
    with False assms(2) have x: "x = queue_get_taken q r (w\<lparr>wakeup := (wakeup w)\<lparr>wfirst := rs\<rparr>\<rparr>)"
      by (auto simp: sqlasync_queue_get_def Let_def)
    show ?thesis
      unfolding x
      by (rule queue_get_taken_ok) (use assms(1) f in \<open>auto simp: queue_ok_def undelivered_def\<close>)
  next
    case no: False
    with False assms(2) have "x = (None, w)"
      by (auto simp: sqlasync_queue_get_def Let_def split: list.splits if_splits)
    with assms(1) show ?thesis by simp
  qed
qed

lemma destroy_drain_props:
  "unat (numresults Q) = length rs + k \<Longrightarrow>
   unat (numresults (fst (destroy_drain rs Q t))) = k
   \<and> first (fst (destroy_drain rs Q t)) = []
   \<and> maxresults (fst (destroy_drain rs Q t)) = maxresults Q
   \<and> numresults (fst (destroy_drain rs Q t)) \<le> numresults Q"
proof (induction rs arbitrary: Q t)
  case Nil
  then show ?case by simp
next
  case (Cons r rs)
  have s: "unat (numresults Q) = Suc (length rs + k)"
    using Cons.prems by simp
  let ?Q = "Q\<lparr>first := rs, numresults := numresults Q - 1,
          numscheduled := (if lastres r then numscheduled Q - 1 else numscheduled Q)\<rparr>"
  have "unat (numresults ?Q) = length rs + k"
    using word_dec(1) [OF s] by simp
  from Cons.IH [OF this, of "t @ [Result_freed r]"] word_dec(2) [OF s]
  show ?case by auto
qed

lemma queue_destroy_ok:
  assumes "queue_ok w"
  shows "queue_ok (sqlasync_queue_destroy qp w)"
proof (cases qp)
  case None
  with assms show ?thesis by (simp add: sqlasync_queue_destroy_def)
next
  case (Some q)
  let ?Q = "(queues w q)\<lparr>destroyed := True\<rparr>"
  let ?k = "length (filter (\<lambda>x. fst x = q) (wfirst (wakeup w)))"
  have "unat (numresults ?Q) = length (first ?Q) + ?k"
    using assms by (simp add: queue_ok_def undelivered_def)
  from destroy_drain_props [OF this, of "trace w"]
  have d: "unat (numresults (fst (destroy_drain (first ?Q) ?Q (trace w)))) = ?k"
    "first (fst (destroy_drain (first ?Q) ?Q (trace w))) = []"
    "numresults (fst (destroy_drain (first ?Q) ?Q (trace w))) \<le> numresults ?Q"
    by simp_all
  have "numresults ?Q \<le> maxresults (queues w q)"
    using assms by (simp add: queue_ok_def)
  with d(3) have "numresults (fst (destroy_drain (first ?Q) ?Q (trace w))) \<le> maxresults (queues w q)"
    by (rule order_trans)
  with d destroy_drain_props [OF \<open>unat (numresults ?Q) = length (first ?Q) + ?k\<close>, of "trace w"]
    assms Some
  show ?thesis
    by (simp add: sqlasync_queue_destroy_def Let_def sqlasync_queue_free_def)
       (auto simp add: queue_ok_def undelivered_def)
qed

lemma queue_schedule_ok: "queue_ok w \<Longrightarrow> queue_ok (sqlasync_queue_schedule qp w)"
  by (simp add: sqlasync_queue_schedule_def Let_def split: option.splits)
     (simp add: queue_ok_def undelivered_def)

lemma queue_result_ok: "queue_ok w \<Longrightarrow> sqlasync_queue_result qp r w = Some w' \<Longrightarrow> queue_ok w'"
  by (auto simp: sqlasync_queue_result_def sqlasync_result_free_def result_destroyed_ok
      result_deliver_ok not_le split: option.splits if_splits)


lemma dispatch_discard_ok:
  assumes "queue_ok w" "wfirst (wakeup w) = (q, res) # rest"
  shows "queue_ok (dispatch_discard q res rest w)"
proof -
  have "unat (numresults (queues w q)) = Suc (length (first (queues w q)) + length (filter (\<lambda>x. fst x = q) rest))"
    using assms by (simp add: queue_ok_def undelivered_def)
  from word_dec(1) [OF this] word_dec_le(1) [OF this] assms show ?thesis
    by (simp add: dispatch_discard_def Let_def sqlasync_queue_free_def sqlasync_result_free_def)
       (auto simp add: queue_ok_def undelivered_def)
qed






lemma caps_kept_refl: "caps_kept w w"
  by (simp add: caps_kept_def)

lemma caps_kept_trans: "caps_kept a b \<Longrightarrow> caps_kept b c \<Longrightarrow> caps_kept a c"
  by (simp add: caps_kept_def)

lemma caps_kept_fresh: "caps_kept w w' \<Longrightarrow> fresh_ok w \<Longrightarrow> fresh_ok w'"
  by (simp add: caps_kept_def fresh_ok_def)

lemma result_final_caps: "caps_kept w (result_final sw sf q w)"
  by (simp add: caps_kept_def result_final_def Let_def sqlasync_queue_free_def)

lemma result_destroyed_caps: "caps_kept w (result_destroyed q r w)"
  by (simp add: caps_kept_def result_destroyed_def result_final_def Let_def
      sqlasync_queue_free_def sqlasync_result_free_def)

lemma result_deliver_caps: "caps_kept w (result_deliver q r w)"
  by (simp add: caps_kept_def result_deliver_def result_final_def Let_def
      sqlasync_queue_free_def sqlasync_result_free_def)

lemma queue_get_taken_caps:
  "nextq w1 = nextq w \<Longrightarrow> \<forall>q. maxresults (queues w1 q) = maxresults (queues w q) \<Longrightarrow>
   caps_kept w (snd (queue_get_taken q r w1))"
  by (simp add: caps_kept_def queue_get_taken_def Let_def)

lemma queue_get_caps: "sqlasync_queue_get q w = Some x \<Longrightarrow> caps_kept w (snd x)"
  unfolding sqlasync_queue_get_def Let_def
  by (auto split: list.splits if_splits intro!: queue_get_taken_caps caps_kept_refl)

lemma destroy_drain_maxresults:
  "maxresults (fst (destroy_drain rs Q t)) = maxresults Q"
  by (induction rs arbitrary: Q t) simp_all

lemma queue_destroy_caps: "caps_kept w (sqlasync_queue_destroy qp w)"
  by (simp add: caps_kept_def sqlasync_queue_destroy_def Let_def sqlasync_queue_free_def
      destroy_drain_maxresults split: option.splits)

lemma queue_schedule_caps: "caps_kept w (sqlasync_queue_schedule qp w)"
  by (simp add: caps_kept_def sqlasync_queue_schedule_def Let_def split: option.splits)

lemma queue_result_caps: "sqlasync_queue_result qp r w = Some w' \<Longrightarrow> caps_kept w w'"
  by (auto simp: sqlasync_queue_result_def result_destroyed_caps result_deliver_caps
      sqlasync_result_free_def caps_kept_def [of w "emit e w" for e]
      split: option.splits if_splits)

lemma dispatch_discard_caps: "caps_kept w (dispatch_discard q res rest w)"
  by (simp add: caps_kept_def dispatch_discard_def Let_def sqlasync_queue_free_def
      sqlasync_result_free_def)


lemma new_queue_ok:
  assumes "world_inv w" "Q = calloc_queue\<lparr>sync := s, each := e, func := f, maxresults := m\<rparr>"
  shows "world_inv ((setq (nextq w) Q w)\<lparr>nextq := Suc (nextq w)\<rparr>)"
proof -
  have "maxresults (queues w (nextq w)) = 0"
    using assms(1) by (simp add: world_inv_def fresh_ok_def)
  moreover have "numresults (queues w (nextq w)) \<le> maxresults (queues w (nextq w))"
    and "unat (numresults (queues w (nextq w))) = undelivered w (nextq w)"
    using assms(1) by (simp_all add: world_inv_def queue_ok_def)
  ultimately have "undelivered w (nextq w) = 0"
    by simp
  then show ?thesis
    using assms
    by (auto simp add: world_inv_def queue_ok_def fresh_ok_def undelivered_def calloc_queue_def)
qed

lemma buffersize_ok:
  "world_inv w \<Longrightarrow> numresults (queues w q) = 0 \<Longrightarrow> q < nextq w \<Longrightarrow>
   world_inv (snd (sqlasync_queue_buffersize q len w))"
proof -
  assume a: "world_inv w" "numresults (queues w q) = 0" "q < nextq w"
  have "unat (numresults (queues w q)) = undelivered w q"
    using a(1) by (simp add: world_inv_def queue_ok_def)
  with a(2) have "undelivered w q = 0" by simp
  with a show ?thesis
    by (auto simp add: world_inv_def queue_ok_def fresh_ok_def undelivered_def sqlasync_queue_buffersize_def)
qed

lemma run_call_inv: "world_inv w \<Longrightarrow> run_call c w = Some w' \<Longrightarrow> world_inv w'"
proof (cases c)
  case (New_sync len)
  assume a: "world_inv w" "run_call c w = Some w'"
  let ?w1 = "(setq (nextq w) (calloc_queue\<lparr>sync := True, each := False, func := 0, maxresults := UINT_MAX\<rparr>) w)\<lparr>nextq := Suc (nextq w)\<rparr>"
  have "world_inv ?w1" using a(1) by (rule new_queue_ok) simp
  then have "world_inv (snd (sqlasync_queue_buffersize (nextq w) len ?w1))"
    by (rule buffersize_ok) (simp_all add: calloc_queue_def)
  with a(2) New_sync show ?thesis
    by (simp add: sqlasync_queue_sync_def Let_def calloc_queue_def)
next
  case (New_async e f len)
  assume a: "world_inv w" "run_call c w = Some w'"
  let ?w1 = "(setq (nextq w) (calloc_queue\<lparr>sync := False, each := e, func := f, maxresults := UINT_MAX\<rparr>) w)\<lparr>nextq := Suc (nextq w)\<rparr>"
  have "world_inv ?w1" using a(1) by (rule new_queue_ok) simp
  then have "world_inv (snd (sqlasync_queue_buffersize (nextq w) len ?w1))"
    by (rule buffersize_ok) (simp_all add: calloc_queue_def)
  with a(2) New_async show ?thesis
    by (simp add: sqlasync_queue_async_def Let_def calloc_queue_def)
next
  case (Get q)
  assume a: "world_inv w" "run_call c w = Some w'"
  with Get show ?thesis
    by (auto simp: world_inv_def dest: queue_get_ok queue_get_caps [THEN caps_kept_fresh])
next
  case (Schedule qp)
  assume a: "world_inv w" "run_call c w = Some w'"
  with Schedule show ?thesis
    by (auto simp: world_inv_def queue_schedule_ok intro: caps_kept_fresh [OF queue_schedule_caps])
next
  case (Destroy qp)
  assume a: "world_inv w" "run_call c w = Some w'"
  with Destroy show ?thesis
    by (auto simp: world_inv_def queue_destroy_ok intro: caps_kept_fresh [OF queue_destroy_caps])
next
  case (Result qp r)
  assume a: "world_inv w" "run_call c w = Some w'"
  with Result show ?thesis
    by (auto simp: world_inv_def dest: queue_result_ok queue_result_caps [THEN caps_kept_fresh])
next
  case (Resume q r)
  assume a: "world_inv w" "run_call c w = Some w'"
  with Resume show ?thesis
    by (auto simp: world_inv_def queue_result_resume_def not_le result_deliver_ok
        intro: caps_kept_fresh [OF result_deliver_caps] split: if_splits)
qed

lemma run_calls_inv: "world_inv w \<Longrightarrow> run_calls cs w = Some w' \<Longrightarrow> world_inv w'"
  by (induction cs arbitrary: w) (auto split: option.splits dest: run_call_inv)

lemma dispatch_loop_inv:
  assumes "dispatch_loop cb w = Some w'" and "world_inv w"
  shows "world_inv w'"
proof -
  from assms(1) have "world_inv w \<longrightarrow> world_inv w'"
  proof (induction rule: dispatch_loop.raw_induct [rotated 1, consumes 1, case_names step])
    case (step loop cb w w')
    note 1 = step
    show ?case
    proof
      assume i: "world_inv w"
      show "world_inv w'"
      proof (cases "wfirst (wakeup w)")
        case Nil
        with 1(2) i show ?thesis by simp
      next
        case (Cons x rest)
        show ?thesis
        proof (cases "destroyed (queues w (fst x))")
          case True
          have "wfirst (wakeup w) = (fst x, snd x) # rest" using Cons by simp
          with i have "world_inv (dispatch_discard (fst x) (snd x) rest w)"
            by (auto simp: world_inv_def dispatch_discard_ok intro: caps_kept_fresh [OF dispatch_discard_caps])
          moreover have "loop cb (dispatch_discard (fst x) (snd x) rest w) = Some w'"
            using 1(2) Cons True by simp
          ultimately show ?thesis using 1(1) by blast
        next
          case False
          with 1(2) Cons obtain w1 where
            r: "run_calls (cb (fst x) w) (emit (Func_called (fst x)) w) = Some w1"
            and l: "loop cb w1 = Some w'"
            by (auto split: option.splits)
          have "world_inv (emit (Func_called (fst x)) w)"
            using i by (simp add: world_inv_def fresh_ok_def)
          then have "world_inv w1" using r by (rule run_calls_inv)
          with 1(1) l show ?thesis by blast
        qed
      qed
    qed
  qed
  with assms(2) show ?thesis by simp
qed

lemma dispatch_inv: "sqlasync_dispatch cb w = Some w' \<Longrightarrow> world_inv w \<Longrightarrow> world_inv w'"
  by (auto simp: sqlasync_dispatch_def Let_def world_inv_def queue_ok_def undelivered_def fresh_ok_def
      split: option.splits if_splits dest!: dispatch_loop_inv)

lemma run_actions_inv: "world_inv w \<Longrightarrow> run_actions cb as w = Some w' \<Longrightarrow> world_inv w'"
proof (induction as arbitrary: w)
  case Nil
  then show ?case by simp
next
  case (Cons a as)
  then show ?case
    by (cases a) (auto split: option.splits dest: run_call_inv dispatch_inv)
qed




lemma caps_grow_refl: "caps_grow w w"
  by (simp add: caps_grow_def)

lemma caps_grow_trans: "caps_grow a b \<Longrightarrow> caps_grow b c \<Longrightarrow> caps_grow a c"
  by (auto simp: caps_grow_def)

lemma caps_kept_grow: "caps_kept w w' \<Longrightarrow> caps_grow w w'"
  by (simp add: caps_kept_def caps_grow_def)

lemma run_call_grow: "run_call c w = Some w' \<Longrightarrow> caps_grow w w'"
proof (cases c)
  case (New_sync len)
  then show "run_call c w = Some w' \<Longrightarrow> caps_grow w w'"
    by (auto simp: caps_grow_def sqlasync_queue_sync_def sqlasync_queue_buffersize_def Let_def)
next
  case (New_async e f len)
  then show "run_call c w = Some w' \<Longrightarrow> caps_grow w w'"
    by (auto simp: caps_grow_def sqlasync_queue_async_def sqlasync_queue_buffersize_def Let_def)
next
  case (Get q)
  then show "run_call c w = Some w' \<Longrightarrow> caps_grow w w'"
    by (auto dest: queue_get_caps [THEN caps_kept_grow])
next
  case (Schedule qp)
  then show "run_call c w = Some w' \<Longrightarrow> caps_grow w w'"
    by (auto intro: caps_kept_grow [OF queue_schedule_caps])
next
  case (Destroy qp)
  then show "run_call c w = Some w' \<Longrightarrow> caps_grow w w'"
    by (auto intro: caps_kept_grow [OF queue_destroy_caps])
next
  case (Result qp r)
  then show "run_call c w = Some w' \<Longrightarrow> caps_grow w w'"
    by (auto dest: queue_result_caps [THEN caps_kept_grow])
next
  case (Resume q r)
  then show "run_call c w = Some w' \<Longrightarrow> caps_grow w w'"
    by (auto simp: queue_result_resume_def intro: caps_kept_grow [OF result_deliver_caps]
        split: if_splits)
qed

lemma run_calls_grow: "run_calls cs w = Some w' \<Longrightarrow> caps_grow w w'"
proof (induction cs arbitrary: w)
  case Nil
  then show ?case by (simp add: caps_grow_refl)
next
  case (Cons c cs)
  then show ?case
    by (auto split: option.splits intro: caps_grow_trans run_call_grow)
qed

lemma dispatch_loop_grow:
  assumes "dispatch_loop cb w = Some w'"
  shows "caps_grow w w'"
  using assms
proof (induction rule: dispatch_loop.raw_induct [rotated 1, consumes 1, case_names step])
  case (step loop cb w w')
  show ?case
  proof (cases "wfirst (wakeup w)")
    case Nil
    with step(2) show ?thesis by (simp add: caps_grow_refl)
  next
    case (Cons x rest)
    show ?thesis
    proof (cases "destroyed (queues w (fst x))")
      case True
      with step(2) Cons have "loop cb (dispatch_discard (fst x) (snd x) rest w) = Some w'"
        by simp
      then have "caps_grow (dispatch_discard (fst x) (snd x) rest w) w'"
        by (rule step(1))
      with caps_kept_grow [OF dispatch_discard_caps] show ?thesis
        by (rule caps_grow_trans)
    next
      case False
      with step(2) Cons obtain w1 where
        r: "run_calls (cb (fst x) w) (emit (Func_called (fst x)) w) = Some w1"
        and l: "loop cb w1 = Some w'"
        by (auto split: option.splits)
      have "caps_grow w (emit (Func_called (fst x)) w)"
        by (simp add: caps_grow_def)
      from this run_calls_grow [OF r] have "caps_grow w w1"
        by (rule caps_grow_trans)
      from this step(1) [OF l] show ?thesis
        by (rule caps_grow_trans)
    qed
  qed
qed

lemma dispatch_grow: "sqlasync_dispatch cb w = Some w' \<Longrightarrow> caps_grow w w'"
  by (auto simp: sqlasync_dispatch_def Let_def split: option.splits if_splits
      dest!: dispatch_loop_grow simp: caps_grow_def)

lemma run_actions_grow: "run_actions cb as w = Some w' \<Longrightarrow> caps_grow w w'"
proof (induction as arbitrary: w)
  case Nil
  then show ?case by (simp add: caps_grow_refl)
next
  case (Cons a as)
  then show ?case
    by (cases a) (auto split: option.splits intro: caps_grow_trans run_call_grow dispatch_grow)
qed

lemma queue_get_room:
  assumes "queue_ok w" "sqlasync_queue_get q w = Some (Some r, w')"
  shows "numresults (queues w' q) < maxresults (queues w' q)"
proof -
  have m: "numresults (queues w q) \<le> maxresults (queues w q)"
    using assms(1) by (simp add: queue_ok_def)
  have u: "unat (numresults (queues w q)) = undelivered w q"
    using assms(1) by (simp add: queue_ok_def)
  have taken: "numresults (queues (snd (queue_get_taken q r1 w1)) q) = numresults (queues w1 q) - 1
      \<and> maxresults (queues (snd (queue_get_taken q r1 w1)) q) = maxresults (queues w1 q)" for r1 w1
    by (simp add: queue_get_taken_def Let_def)
  have "\<exists>r1 w1. w' = snd (queue_get_taken q r1 w1)
      \<and> numresults (queues w1 q) = numresults (queues w q)
      \<and> maxresults (queues w1 q) = maxresults (queues w q)
      \<and> 0 < undelivered w q"
  proof (cases "sync (queues w q)")
    case True
    with assms(2) obtain r1 rs where f: "first (queues w q) = r1 # rs"
      and x: "w' = snd (queue_get_taken q r1 (setq q ((queues w q)\<lparr>first := rs\<rparr>) w))"
      by (auto simp: sqlasync_queue_get_def Let_def split: list.splits)
    have "numresults (queues (setq q ((queues w q)\<lparr>first := rs\<rparr>) w) q) = numresults (queues w q)"
      "maxresults (queues (setq q ((queues w q)\<lparr>first := rs\<rparr>) w) q) = maxresults (queues w q)"
      "0 < undelivered w q"
      using f by (simp_all add: undelivered_def)
    with x show ?thesis by blast
  next
    case False
    with assms(2) obtain r1 rs where f: "wfirst (wakeup w) = (q, r1) # rs"
      and x: "w' = snd (queue_get_taken q r1 (w\<lparr>wakeup := (wakeup w)\<lparr>wfirst := rs\<rparr>\<rparr>))"
      by (auto simp: sqlasync_queue_get_def Let_def split: list.splits if_splits)
    have "numresults (queues (w\<lparr>wakeup := (wakeup w)\<lparr>wfirst := rs\<rparr>\<rparr>) q) = numresults (queues w q)"
      "maxresults (queues (w\<lparr>wakeup := (wakeup w)\<lparr>wfirst := rs\<rparr>\<rparr>) q) = maxresults (queues w q)"
      "0 < undelivered w q"
      using f by (simp_all add: undelivered_def)
    with x show ?thesis by blast
  qed
  then obtain r1 w1 where w': "w' = snd (queue_get_taken q r1 w1)"
    and n: "numresults (queues w1 q) = numresults (queues w q)"
    and x: "maxresults (queues w1 q) = maxresults (queues w q)"
    and pos: "0 < undelivered w q"
    by blast
  from pos u have "\<exists>k. unat (numresults (queues w q)) = Suc k"
    by (simp add: gr0_conv_Suc)
  then obtain k where "unat (numresults (queues w q)) = Suc k" ..
  from word_dec_le(2) [OF this m] show ?thesis
    by (simp add: w' taken n x)
qed


lemmas queue_defs =
  sqlasync_queue_sync_def sqlasync_queue_async_def sqlasync_queue_buffersize_def
  sqlasync_queue_get_def queue_get_taken_def sqlasync_queue_schedule_def
  sqlasync_queue_destroy_def sqlasync_queue_result_def result_destroyed_def result_deliver_def
  result_final_def queue_result_resume_def dispatch_discard_def sqlasync_dispatch_def
  world_init_def sqlasync_wakeup_create_def calloc_queue_def setq_def emit_def
  sqlasync_result_free_def sqlasync_queue_free_def UINT_MAX_def Let_def
  demo_row_def demo_done_def demo_cb_def word_le_nat_alt




lemma demo_full: "run_actions demo_cb demo_full_actions (world_init False) = Some demo_full"
proof -
  have "run_actions demo_cb demo_full_actions (world_init False) \<noteq> None"
    by (simp add: demo_full_actions_def queue_defs)
  then show ?thesis by (simp add: demo_full_def)
qed

section \<open>Lemmas on the worker\<close>

lemmas worker_defs =
  toy_def toy_step_def toy_stmt_def toy_open_def toy_sql_def
  sqlasync_create_def sqlasync_op_create_def thread_turn_def sqlasync_thread_getnext_def
  commit_needed_def deferred_commit_def sqlasync_thread_sql_def sqlasync_thread_exec_def
  sqlasync_thread_final_def sql_final_def sqlasync_thread_open_def sqlasync_thread_close_def
  sqlasync_thread_commit_def sqlasync_thread_rollback_def sqlasync_thread_begin_def
  cached_stmt_def sqlasync_thread_row_def sqlasync_thread_bind_def send_def obind_def of_option_def
  sqlasync_havetranstimeout_def chain_def arg_i64_def arg_ptr_def sqlasync_int_def sqlasync_text_def
  sqlasync_result_create_def
  SQLASYNC_NEXT_def SQLASYNC_LAST_def SQLASYNC_SINGLE_def SQLASYNC_OPEN_def SQLASYNC_CLOSE_def
  SQLASYNC_QUIT_def SQLASYNC_CUSTOM_def SQLASYNC_STATIC_def
  SQLITE_OK_def SQLITE_ERROR_def SQLITE_BUSY_def SQLITE_ROW_def SQLITE_DONE_def Let_def


lemma rows_to_simps [simp]:
  "rows_to qp []"
  "rows_to qp (ps @ ps') = (rows_to qp ps \<and> rows_to qp ps')"
  "rows_to qp (p # ps) = (origin p = Row_result \<and> target p = qp \<and> \<not> lastres (pushed_result p) \<and> rows_to qp ps)"
  by (auto simp: rows_to_def)

lemma obind_Returns [simp]:
  "obind m f = Returns y \<longleftrightarrow> (\<exists>x. m = Returns x \<and> f x = Returns y)"
  by (cases m) (simp_all add: obind_def)

lemma obind_simps [simp]:
  "obind (Returns x) f = f x" "obind Assert_fails f = Assert_fails" "obind Hangs f = Hangs"
  by (simp_all add: obind_def)

lemma of_option_Returns [simp]: "of_option m = Returns x \<longleftrightarrow> m = Some x"
  by (cases m) (simp_all add: of_option_def)

lemma cached_stmt_Returns:
  "cached_stmt E txt c s = Returns x \<Longrightarrow>
   (c \<noteq> None \<and> x = (c, engine s))
   \<or> (c = None \<and> fst (sqlite3_prepare_v2 E (db s) (Some txt) (engine s)) = SQLITE_OK
        \<and> x = snd (sqlite3_prepare_v2 E (db s) (Some txt) (engine s)))"
  by (auto simp: cached_stmt_def split: if_splits prod.splits)

lemma begin_Returns:
  "sqlasync_thread_begin E s = Returns s' \<Longrightarrow>
   \<exists>st e. s' = s\<lparr>s_begin := st, engine := e, intrans := True\<rparr>"
  by (auto simp: sqlasync_thread_begin_def split: prod.splits)

lemma rollback_Returns:
  "sqlasync_thread_rollback E s = Returns s' \<Longrightarrow>
   \<exists>st e. s' = s\<lparr>s_rollback := st, engine := e, intrans := False\<rparr>"
  by (auto simp: sqlasync_thread_rollback_def split: prod.splits)

lemma commit_Returns:
  "sqlasync_thread_commit E s = Returns (r, s') \<Longrightarrow>
   \<exists>c rb e. s' = s\<lparr>s_commit := c, s_rollback := rb, engine := e, intrans := False\<rparr>"
proof -
  assume "sqlasync_thread_commit E s = Returns (r, s')"
  then obtain st e1 s2 where
    s2: "(if r \<noteq> SQLITE_DONE
          then sqlasync_thread_rollback E (s\<lparr>s_commit := st, engine := e1\<rparr>)
          else Returns (s\<lparr>s_commit := st, engine := e1\<rparr>)) = Returns s2"
    and s': "s' = s2\<lparr>intrans := False\<rparr>"
    by (auto simp: sqlasync_thread_commit_def Let_def split: prod.splits)
  show ?thesis
  proof (cases "r = SQLITE_DONE")
    case True
    with s2 s' have "s' = s\<lparr>s_commit := st, s_rollback := s_rollback s, engine := e1, intrans := False\<rparr>"
      by auto
    then show ?thesis by blast
  next
    case False
    with s2 obtain rb e where "s2 = s\<lparr>s_commit := st, engine := e1, s_rollback := rb, engine := e, intrans := False\<rparr>"
      by (auto dest!: rollback_Returns)
    with s' have "s' = s\<lparr>s_commit := st, s_rollback := rb, engine := e, intrans := False\<rparr>"
      by simp
    then show ?thesis by blast
  qed
qed

lemma exec_rows_frame:
  assumes "exec_rows E qp st s = Some y"
  shows "\<exists>e ps. snd y = s\<lparr>engine := e, pushed := pushed s @ ps\<rparr> \<and> rows_to qp ps \<and> fst y \<noteq> SQLITE_ROW"
  using assms
proof (induction rule: exec_rows.raw_induct [rotated 1, consumes 1, case_names step])
  case (step loop E qp st s y)
  from step(2) obtain x where
    x: "(if fst x = SQLITE_ROW
         then loop E qp st (sqlasync_thread_row E qp st (s\<lparr>engine := snd x\<rparr>))
         else Some (fst x, s\<lparr>engine := snd x\<rparr>)) = Some y"
    by (auto split: option.splits)
  show ?case
  proof (cases "fst x = SQLITE_ROW")
    case True
    with x have "loop E qp st (sqlasync_thread_row E qp st (s\<lparr>engine := snd x\<rparr>)) = Some y"
      by simp
    from step(1) [OF this] obtain e ps where
      y: "snd y = (sqlasync_thread_row E qp st (s\<lparr>engine := snd x\<rparr>))\<lparr>engine := e,
            pushed := pushed (sqlasync_thread_row E qp st (s\<lparr>engine := snd x\<rparr>)) @ ps\<rparr>"
      and r: "rows_to qp ps" "fst y \<noteq> SQLITE_ROW"
      by blast
    let ?p = "\<lparr>origin = Row_result, target = qp,
        pushed_result = (sqlasync_result_create (word_of_int SQLITE_ROW) 0
           (length (sqlite3_columns E st (snd x))))\<lparr>col := sqlite3_columns E st (snd x)\<rparr>\<rparr>"
    have "snd y = s\<lparr>engine := e, pushed := pushed s @ (?p # ps)\<rparr>"
      using y by (simp add: sqlasync_thread_row_def send_def Let_def)
    moreover have "rows_to qp (?p # ps)"
      using r(1) by (simp add: sqlasync_result_create_def)
    ultimately show ?thesis using r(2) by blast
  next
    case False
    with x have "y = (fst x, s\<lparr>engine := snd x\<rparr>)" by simp
    then have "snd y = s\<lparr>engine := snd x, pushed := pushed s @ []\<rparr>" "fst y \<noteq> SQLITE_ROW"
      using False by simp_all
    then show ?thesis by (metis rows_to_simps(1))
  qed
qed

lemma exec_Returns:
  assumes "sqlasync_thread_exec E s op = Returns (r, st, s')"
  shows "\<exists>e ps. s' = s\<lparr>engine := e, pushed := pushed s @ ps\<rparr> \<and> rows_to (opq op) ps"
proof -
  obtain r0 st0 e0 where p: "sqlite3_prepare_v2 E (db s) (str op) (engine s) = (r0, st0, e0)"
    by (cases "sqlite3_prepare_v2 E (db s) (str op) (engine s)") auto
  show ?thesis
  proof (cases "r0 \<noteq> SQLITE_OK \<or> st0 = None")
    case True
    with assms p have "\<exists>e. s' = s\<lparr>engine := e, pushed := pushed s @ []\<rparr>"
      by (auto simp: sqlasync_thread_exec_def split: if_splits)
    then show ?thesis by (metis rows_to_simps(1))
  next
    case False
    with assms p obtain y where
      y: "exec_rows E (opq op) st0 (s\<lparr>engine := sqlasync_thread_bind E op st0 e0\<rparr>) = Some y"
      and s': "s' = snd y"
      by (auto simp: sqlasync_thread_exec_def split: if_splits prod.splits)
    from exec_rows_frame [OF y] s' show ?thesis by auto
  qed
qed

lemma step_retry_stops:
  "fst (sqlite3_step E st e) \<noteq> SQLITE_BUSY \<Longrightarrow> step_retry E st e = Some (sqlite3_step E st e)"
  by (subst step_retry.simps) simp

lemma step_retry_again:
  "fst (sqlite3_step E st e) = SQLITE_BUSY \<Longrightarrow>
   step_retry E st e = step_retry E st (snd (sqlite3_step E st e))"
  by (subst step_retry.simps) simp

lemma step_retry_skip:
  "(\<And>k. k < n \<Longrightarrow> fst (sqlite3_step E st (steps E st k e)) = SQLITE_BUSY) \<Longrightarrow>
   step_retry E st e = step_retry E st (steps E st n e)"
proof (induction n arbitrary: e)
  case 0
  show ?case by simp
next
  case (Suc n)
  have b: "fst (sqlite3_step E st e) = SQLITE_BUSY"
    using Suc.prems [of 0] by simp
  have "step_retry E st (snd (sqlite3_step E st e)) =
        step_retry E st (steps E st n (snd (sqlite3_step E st e)))"
  proof (rule Suc.IH)
    fix k assume "k < n"
    then show "fst (sqlite3_step E st (steps E st k (snd (sqlite3_step E st e)))) = SQLITE_BUSY"
      using Suc.prems [of "Suc k"] by simp
  qed
  with step_retry_again [OF b] show ?case by simp
qed

lemma step_retry_Some:
  assumes "step_retry E st e = Some y"
  shows "\<exists>n. fst (sqlite3_step E st (steps E st n e)) \<noteq> SQLITE_BUSY"
  using assms
proof (induction rule: step_retry.raw_induct [rotated 1, consumes 1, case_names step])
  case (step loop E st e y)
  show ?case
  proof (cases "fst (sqlite3_step E st e) = SQLITE_BUSY")
    case True
    with step(2) have "loop E st (snd (sqlite3_step E st e)) = Some y" by simp
    from step(1) [OF this] obtain n where
      "fst (sqlite3_step E st (steps E st (Suc n) e)) \<noteq> SQLITE_BUSY" by auto
    then show ?thesis by blast
  next
    case False
    then have "fst (sqlite3_step E st (steps E st 0 e)) \<noteq> SQLITE_BUSY" by simp
    then show ?thesis by blast
  qed
qed

lemma step_retry_forever:
  "(\<And>k. fst (sqlite3_step E st (steps E st k e)) = SQLITE_BUSY) \<Longrightarrow> step_retry E st e = None"
  using step_retry_Some [of E st e] by (cases "step_retry E st e") auto

lemma thread_final_eq:
  "sqlasync_thread_final E s op r = s\<lparr>pushed := pushed s @ [final_push E s op r]\<rparr>"
  by (simp add: sqlasync_thread_final_def final_push_def Let_def send_def sqlasync_result_create_def
      sqlasync_text_def uint_word_of_int)

lemma sql_final_eq:
  "sql_final E op (r, st, s) =
     s\<lparr>engine := (if st \<noteq> None then sqlite3_finalize E st (sqlite3_reset E st (engine s)) else engine s),
       pushed := pushed s @ [final_push E s op r]\<rparr>"
  by (simp add: sql_final_def thread_final_eq Let_def)



lemmas demo_defs = demo_open_push_def demo_chain_def demo_aborted_def

lemma demo_chain: "sqlasync_thread toy [Some toy_open, Some (toy_sql SQLASYNC_NEXT ''ok'')]
    (sqlasync_create None []) = Returns demo_chain"
  by (simp add: worker_defs demo_defs exec_rows.simps step_retry.simps)

lemma demo_aborted: "sqlasync_thread toy [Some toy_open, Some (toy_sql SQLASYNC_NEXT ''fail'')]
    (sqlasync_create None []) = Returns demo_aborted"
  by (simp add: worker_defs demo_defs exec_rows.simps step_retry.simps)

lemma chain_next_exec:
  "chain fl = SQLASYNC_NEXT \<Longrightarrow>
   fl \<noteq> SQLASYNC_OPEN \<and> fl \<noteq> SQLASYNC_CLOSE \<and> fl \<noteq> SQLASYNC_QUIT \<and> fl \<noteq> SQLASYNC_CUSTOM
   \<and> chain fl \<noteq> SQLASYNC_SINGLE \<and> chain fl \<noteq> SQLASYNC_LAST"
  by (auto simp: chain_def SQLASYNC_NEXT_def SQLASYNC_OPEN_def SQLASYNC_CLOSE_def SQLASYNC_QUIT_def
      SQLASYNC_CUSTOM_def SQLASYNC_SINGLE_def SQLASYNC_LAST_def)

lemma final_push_cong [simp]:
  "final_push E (s\<lparr>pushed := ps\<rparr>) op r = final_push E s op r"
  "final_push E (s\<lparr>donext := d\<rparr>) op r = final_push E s op r"
  "final_push E (s\<lparr>errtrans := d\<rparr>) op r = final_push E s op r"
  by (simp_all add: final_push_def)

lemma sql_aborted:
  "errtrans s \<Longrightarrow> chain (flags op) \<noteq> SQLASYNC_SINGLE \<Longrightarrow>
   sqlasync_thread_sql E s op =
     Returns (s\<lparr>errtrans := (chain (flags op) = SQLASYNC_NEXT),
                pushed := pushed s @ [final_push E s op SQLITE_ERROR]\<rparr>)"
  by (auto simp: sqlasync_thread_sql_def sql_final_eq)

lemma turn_aborted_next:
  assumes "errtrans s" "chain (flags op) = SQLASYNC_NEXT"
  shows "thread_turn E (Some op) s =
     Returns (True, s\<lparr>donext := True, pushed := pushed s @ [final_push E s op SQLITE_ERROR]\<rparr>)"
proof -
  note n = chain_next_exec [OF assms(2)]
  have "\<not> commit_needed s (Some op)"
    using n by (simp add: commit_needed_def)
  moreover have "sqlasync_thread_sql E s op =
     Returns (s\<lparr>pushed := pushed s @ [final_push E s op SQLITE_ERROR]\<rparr>)"
    using sql_aborted [of s op E] assms n by simp
  ultimately show ?thesis
    using n assms by (simp add: thread_turn_def sqlasync_thread_getnext_def del: obind_Returns)
qed

lemma thread_aborted_members:
  "errtrans s \<Longrightarrow> (\<And>op. op \<in> set ops \<Longrightarrow> chain (flags op) = SQLASYNC_NEXT) \<Longrightarrow>
   sqlasync_thread E (map Some ops) s =
     Returns (s\<lparr>donext := (ops \<noteq> [] \<or> donext s),
                pushed := pushed s @ map (\<lambda>op. final_push E s op SQLITE_ERROR) ops\<rparr>)"
proof (induction ops arbitrary: s)
  case Nil
  then show ?case by simp
next
  case (Cons op ops)
  let ?s = "s\<lparr>donext := True, pushed := pushed s @ [final_push E s op SQLITE_ERROR]\<rparr>"
  have t: "thread_turn E (Some op) s = Returns (True, ?s)"
    using Cons.prems by (intro turn_aborted_next) simp_all
  have "sqlasync_thread E (map Some ops) ?s =
     Returns (?s\<lparr>donext := (ops \<noteq> [] \<or> donext ?s),
                pushed := pushed ?s @ map (\<lambda>op. final_push E ?s op SQLITE_ERROR) ops\<rparr>)"
    using Cons.prems by (intro Cons.IH) simp_all
  with t show ?case by simp
qed

lemma toy_stuck: "steps toy (Some 9) k e = e"
  by (induction k arbitrary: e) (simp_all add: toy_def toy_step_def)
lemma final_push_final_to [simp]: "final_to (opq op) (final_push E s op r)"
  by (simp add: final_to_def final_push_def)

lemma sql_Returns:
  assumes "sqlasync_thread_sql E s op = Returns s'"
  shows "kept s s' \<and> (\<exists>ps fp. pushed s' = pushed s @ ps @ [fp] \<and> rows_to (opq op) ps \<and> final_to (opq op) fp)"
proof -
  consider (single) "chain (flags op) = SQLASYNC_SINGLE"
    | (aborted) "chain (flags op) \<noteq> SQLASYNC_SINGLE" "errtrans s"
    | (last) "chain (flags op) \<noteq> SQLASYNC_SINGLE" "\<not> errtrans s"
        "chain (flags op) = SQLASYNC_LAST
          \<or> (\<not> sqlasync_havetranstimeout s \<and> donext s \<and> chain (flags op) \<noteq> SQLASYNC_NEXT)"
    | (normal) "chain (flags op) \<noteq> SQLASYNC_SINGLE" "\<not> errtrans s"
        "\<not> (chain (flags op) = SQLASYNC_LAST
          \<or> (\<not> sqlasync_havetranstimeout s \<and> donext s \<and> chain (flags op) \<noteq> SQLASYNC_NEXT))"
    by blast
  then show ?thesis
  proof cases
    case single
    with assms obtain r st s1 where e: "sqlasync_thread_exec E s op = Returns (r, st, s1)"
      and s': "s' = sql_final E op (r, st, s1)"
      by (auto simp: sqlasync_thread_sql_def)
    from exec_Returns [OF e] obtain e1 ps where "s1 = s\<lparr>engine := e1, pushed := pushed s @ ps\<rparr>"
      "rows_to (opq op) ps" by blast
    then show ?thesis
      unfolding s' sql_final_eq kept_def by (intro conjI exI [of _ ps] exI [of _ "final_push E s1 op r"]) simp_all
  next
    case aborted
    with assms have "s' = s\<lparr>errtrans := (chain (flags op) = SQLASYNC_NEXT),
                pushed := pushed s @ [final_push E s op SQLITE_ERROR]\<rparr>"
      by (simp add: sql_aborted)
    then show ?thesis
      unfolding kept_def by (intro conjI exI [of _ "[]"] exI [of _ "final_push E s op SQLITE_ERROR"]) simp_all
  next
    case last
    with assms obtain r st s1 s2 r3 s3 where e: "sqlasync_thread_exec E s op = Returns (r, st, s1)"
      and rb: "(if intrans s1 \<and> r \<noteq> SQLITE_DONE then sqlasync_thread_rollback E s1 else Returns s1) = Returns s2"
      and cm: "(if intrans s2 \<and> r = SQLITE_DONE then sqlasync_thread_commit E s2 else Returns (r, s2)) = Returns (r3, s3)"
      and s': "s' = sql_final E op (r3, st, s3)"
      by (auto simp: sqlasync_thread_sql_def)
    from exec_Returns [OF e] obtain e1 ps where s1: "s1 = s\<lparr>engine := e1, pushed := pushed s @ ps\<rparr>"
      and ps: "rows_to (opq op) ps" by blast
    from rb have s2: "kept s1 s2 \<and> pushed s2 = pushed s1"
      by (auto simp: kept_def split: if_splits dest!: rollback_Returns)
    from cm have s3: "kept s2 s3 \<and> pushed s3 = pushed s2"
      by (auto simp: kept_def split: if_splits dest!: commit_Returns)
    from s1 s2 s3 ps show ?thesis
      unfolding s' sql_final_eq kept_def
      by (intro conjI exI [of _ ps] exI [of _ "final_push E s3 op r3"]) simp_all
  next
    case normal
    with assms obtain s0 r st s1 s3 where
      b: "(if \<not> intrans s \<and> (chain (flags op) = SQLASYNC_NEXT \<or> sqlasync_havetranstimeout s)
               then sqlasync_thread_begin E s else Returns s) = Returns s0"
      and e: "sqlasync_thread_exec E s0 op = Returns (r, st, s1)"
      and rb: "(if st \<noteq> None \<and> r \<noteq> SQLITE_DONE
               then obind (if intrans s1 then sqlasync_thread_rollback E s1 else Returns s1) (\<lambda>s2.
                      Returns (if chain (flags op) = SQLASYNC_NEXT then s2\<lparr>errtrans := True\<rparr> else s2))
               else Returns s1) = Returns s3"
      and s': "s' = sql_final E op (r, st, s3)"
      by (auto simp: sqlasync_thread_sql_def)
    from b have s0: "kept s s0 \<and> pushed s0 = pushed s"
      by (auto simp: kept_def split: if_splits dest!: begin_Returns)
    from exec_Returns [OF e] obtain e1 ps where s1: "s1 = s0\<lparr>engine := e1, pushed := pushed s0 @ ps\<rparr>"
      and ps: "rows_to (opq op) ps" by blast
    from rb have s3: "kept s1 s3 \<and> pushed s3 = pushed s1"
      by (auto simp: kept_def split: if_splits dest!: rollback_Returns)
    from s0 s1 s3 ps show ?thesis
      unfolding s' sql_final_eq kept_def
      by (intro conjI exI [of _ ps] exI [of _ "final_push E s3 op r"]) simp_all
  qed
qed

lemma exec_flags:
  "sqlasync_thread_exec E s op = Returns (r, st, s1) \<Longrightarrow>
   intrans s1 = intrans s \<and> errtrans s1 = errtrans s \<and> kept s s1"
  by (auto simp: kept_def dest!: exec_Returns)

lemma sql_final_flags [simp]:
  "intrans (sql_final E op (r, st, s)) = intrans s"
  "errtrans (sql_final E op (r, st, s)) = errtrans s"
  by (simp_all add: sql_final_eq)

lemma sql_flags:
  assumes "sqlasync_thread_sql E s op = Returns s'"
    and "\<not> sqlasync_havetranstimeout s"
    and "intrans s \<longrightarrow> donext s"
    and "errtrans s \<longrightarrow> \<not> intrans s"
    and "chain (flags op) = SQLASYNC_SINGLE \<longrightarrow> \<not> intrans s"
  shows "(intrans s' \<longrightarrow> chain (flags op) = SQLASYNC_NEXT) \<and> (errtrans s' \<longrightarrow> \<not> intrans s')"
proof -
  consider (single) "chain (flags op) = SQLASYNC_SINGLE"
    | (aborted) "chain (flags op) \<noteq> SQLASYNC_SINGLE" "errtrans s"
    | (last) "chain (flags op) \<noteq> SQLASYNC_SINGLE" "\<not> errtrans s"
        "chain (flags op) = SQLASYNC_LAST
          \<or> (\<not> sqlasync_havetranstimeout s \<and> donext s \<and> chain (flags op) \<noteq> SQLASYNC_NEXT)"
    | (normal) "chain (flags op) \<noteq> SQLASYNC_SINGLE" "\<not> errtrans s"
        "\<not> (chain (flags op) = SQLASYNC_LAST
          \<or> (\<not> sqlasync_havetranstimeout s \<and> donext s \<and> chain (flags op) \<noteq> SQLASYNC_NEXT))"
    by blast
  then show ?thesis
  proof cases
    case single
    with assms(1) obtain r st s1 where e: "sqlasync_thread_exec E s op = Returns (r, st, s1)"
      and s': "s' = sql_final E op (r, st, s1)"
      by (auto simp: sqlasync_thread_sql_def)
    from exec_flags [OF e] single assms(5) show ?thesis
      unfolding s' by simp
  next
    case aborted
    with assms(1) have "s' = s\<lparr>errtrans := (chain (flags op) = SQLASYNC_NEXT),
                pushed := pushed s @ [final_push E s op SQLITE_ERROR]\<rparr>"
      by (simp add: sql_aborted)
    with aborted assms(4) show ?thesis by simp
  next
    case last
    with assms(1) obtain r st s1 s2 r3 s3 where e: "sqlasync_thread_exec E s op = Returns (r, st, s1)"
      and rb: "(if intrans s1 \<and> r \<noteq> SQLITE_DONE then sqlasync_thread_rollback E s1 else Returns s1) = Returns s2"
      and cm: "(if intrans s2 \<and> r = SQLITE_DONE then sqlasync_thread_commit E s2 else Returns (r, s2)) = Returns (r3, s3)"
      and s': "s' = sql_final E op (r3, st, s3)"
      by (auto simp: sqlasync_thread_sql_def)
    from rb have "r \<noteq> SQLITE_DONE \<longrightarrow> \<not> intrans s2"
      by (auto split: if_splits dest!: rollback_Returns)
    with cm have "\<not> intrans s3"
      by (auto split: if_splits dest!: commit_Returns)
    then show ?thesis unfolding s' by simp
  next
    case normal
    with assms(1) obtain s0 r st s1 s3 where
      b: "(if \<not> intrans s \<and> (chain (flags op) = SQLASYNC_NEXT \<or> sqlasync_havetranstimeout s)
               then sqlasync_thread_begin E s else Returns s) = Returns s0"
      and e: "sqlasync_thread_exec E s0 op = Returns (r, st, s1)"
      and rb: "(if st \<noteq> None \<and> r \<noteq> SQLITE_DONE
               then obind (if intrans s1 then sqlasync_thread_rollback E s1 else Returns s1) (\<lambda>s2.
                      Returns (if chain (flags op) = SQLASYNC_NEXT then s2\<lparr>errtrans := True\<rparr> else s2))
               else Returns s1) = Returns s3"
      and s': "s' = sql_final E op (r, st, s3)"
      by (auto simp: sqlasync_thread_sql_def)
    from b normal(2) have s0: "\<not> errtrans s0" "chain (flags op) \<noteq> SQLASYNC_NEXT \<longrightarrow> intrans s0 = intrans s"
      using assms(2) by (auto split: if_splits dest!: begin_Returns)
    from exec_flags [OF e] s0 have s1: "\<not> errtrans s1" "chain (flags op) \<noteq> SQLASYNC_NEXT \<longrightarrow> intrans s1 = intrans s"
      by auto
    from normal(3) assms(2,3) have ni: "chain (flags op) \<noteq> SQLASYNC_NEXT \<longrightarrow> \<not> intrans s"
      by auto
    from rb s1 ni have "(intrans s3 \<longrightarrow> chain (flags op) = SQLASYNC_NEXT) \<and> (errtrans s3 \<longrightarrow> \<not> intrans s3)"
      by (auto split: if_splits dest!: rollback_Returns)
    then show ?thesis unfolding s' by simp
  qed
qed

lemma fold_send:
  "fold (\<lambda>x. send og (fst x) (snd x)) rs s =
     s\<lparr>pushed := pushed s @ map (\<lambda>x. \<lparr>origin = og, target = fst x, pushed_result = snd x\<rparr>) rs\<rparr>"
  by (induction rs arbitrary: s) (simp_all add: send_def)

lemma untimed_needs_no_commit:
  assumes "untimed_inv s" "commit_needed s ev"
  shows "thread_turn E ev s = Assert_fails \<or> thread_turn E ev s = Hangs"
proof (cases ev)
  case None
  with assms(1) show ?thesis
    by (auto simp: thread_turn_def sqlasync_thread_getnext_def untimed_inv_def)
next
  case (Some op)
  with assms have "donext s"
    by (auto simp: commit_needed_def untimed_inv_def)
  with Some assms(2) show ?thesis
    by (simp add: thread_turn_def sqlasync_thread_getnext_def deferred_commit_def)
qed

lemma deferred_commit_Returns:
  assumes "deferred_commit E s = Returns s1"
  shows "\<not> donext s \<and> kept s s1 \<and> \<not> intrans s1 \<and> errtrans s1 = errtrans s
     \<and> (pushed s1 = pushed s
         \<or> (\<exists>res. pushed s1 = pushed s @ [\<lparr>origin = Commit_error, target = dbqueue s, pushed_result = res\<rparr>]
               \<and> \<not> lastres res \<and> length (col res) = 1))"
proof -
  from assms have d: "\<not> donext s"
    by (auto simp: deferred_commit_def split: if_splits)
  with assms obtain r s0 where c: "sqlasync_thread_commit E s = Returns (r, s0)"
    and s1: "s1 = (if r \<noteq> SQLITE_DONE
               then send Commit_error (dbqueue s0)
                      ((sqlasync_result_create (word_of_int r) 0 1)
                         \<lparr>col := (col (sqlasync_result_create (word_of_int r) 0 1))
                            [0 := sqlasync_text (sqlite3_errmsg E (db s0) (engine s0))]\<rparr>) s0
               else s0)"
    by (auto simp: deferred_commit_def Let_def split: if_splits)
  from commit_Returns [OF c] obtain cm rb e where
    s0: "s0 = s\<lparr>s_commit := cm, s_rollback := rb, engine := e, intrans := False\<rparr>"
    by blast
  show ?thesis
    using d unfolding s1 s0
    by (simp add: kept_def send_def sqlasync_result_create_def)
qed

lemma open_Returns:
  assumes "sqlasync_thread_open E s op = Returns s'"
  shows "\<not> db s \<and> transtimeout s' = transtimeout s \<and> intrans s' = intrans s
     \<and> errtrans s' = errtrans s \<and> donext s' = donext s
     \<and> (\<exists>res. lastres res
          \<and> ((db s' \<and> dbqueue s' = arg_ptr (args op) 1
               \<and> pushed s' = pushed s @ [\<lparr>origin = Open_result, target = opq op, pushed_result = res\<rparr>])
             \<or> (\<not> db s' \<and> dbqueue s' = dbqueue s
               \<and> pushed s' = pushed s @ [\<lparr>origin = Open_result, target = opq op, pushed_result = res\<rparr>,
                    \<lparr>origin = Open_failed_closed, target = arg_ptr (args op) 1,
                      pushed_result = \<lparr>result = 0, lastres = True, col = []\<rparr>\<rparr>])))"
proof -
  from assms have d: "\<not> db s"
    by (auto simp: sqlasync_thread_open_def split: if_splits)
  obtain r e where o: "(if arg_i64 (args op) 0 \<noteq> 0
               then sqlite3_open_v2 E (str op) (arg_i64 (args op) 0) (engine s)
               else sqlite3_open E (str op) (engine s)) = (r, e)"
    by (metis surj_pair)
  show ?thesis
  proof (cases "r = 0")
    case True
    with assms d o have "s' = send Open_result (opq op) (sqlasync_result_create (word_of_int r) 1 0)
                          (s\<lparr>db := True, dbqueue := arg_ptr (args op) 1,
                             engine := sqlite3_busy_timeout E 10 e\<rparr>)"
      by (simp add: sqlasync_thread_open_def)
    then show ?thesis
      using d by (simp add: send_def sqlasync_result_create_def)
  next
    case False
    with assms d o have "s' = send Open_failed_closed (arg_ptr (args op) 1)
          (sqlasync_result_create (word_of_int SQLITE_OK) 1 0)
          (send Open_result (opq op)
             ((sqlasync_result_create (word_of_int r) 1 1)
                \<lparr>col := (col (sqlasync_result_create (word_of_int r) 1 1))
                   [0 := sqlasync_text (sqlite3_errmsg E True e)]\<rparr>)
             (s\<lparr>db := False, engine := sqlite3_close E True e\<rparr>))"
      by (simp add: sqlasync_thread_open_def Let_def)
    then show ?thesis
      using d by (simp add: send_def sqlasync_result_create_def SQLITE_OK_def)
  qed
qed

lemma close_fields [simp]:
  "pushed (sqlasync_thread_close E s) =
     pushed s @ [\<lparr>origin = Close_result, target = dbqueue s,
         pushed_result = \<lparr>result = 0, lastres = True, col = []\<rparr>\<rparr>]"
  "transtimeout (sqlasync_thread_close E s) = transtimeout s"
  "intrans (sqlasync_thread_close E s) = intrans s"
  "errtrans (sqlasync_thread_close E s) = errtrans s"
  "donext (sqlasync_thread_close E s) = donext s"
  "db (sqlasync_thread_close E s) = False"
  "dbqueue (sqlasync_thread_close E s) = None"
  by (simp_all add: sqlasync_thread_close_def Let_def send_def sqlasync_result_create_def SQLITE_OK_def)

lemma turn_Some:
  "thread_turn E (Some op) s =
     obind (if commit_needed s (Some op) then deferred_commit E s else Returns s) (turn_op E op)"
  by (simp add: thread_turn_def sqlasync_thread_getnext_def turn_op_def [abs_def] del: obind_Returns)

lemma turn_None:
  "thread_turn E None s =
     (if donext s then Assert_fails else if intrans s
      then obind (deferred_commit E s) (\<lambda>s1. Returns (True, s1)) else Hangs)"
  by (simp add: thread_turn_def sqlasync_thread_getnext_def commit_needed_def del: obind_Returns)


lemma turn_parts:
  assumes "thread_turn E (Some op) s = Returns (c, s')"
  obtains s1 cs where "turn_op E op s1 = Returns (c, s')"
    and "pushed s1 = pushed s @ cs" and "kept s s1"
    and "cs = [] \<or> (\<exists>res. cs = [\<lparr>origin = Commit_error, target = dbqueue s, pushed_result = res\<rparr>]
               \<and> \<not> lastres res \<and> length (col res) = 1 \<and> commit_needed s (Some op))"
    and "\<not> commit_needed s (Some op) \<longrightarrow> s1 = s"
proof (cases "commit_needed s (Some op)")
  case True
  with assms obtain s1 where d: "deferred_commit E s = Returns s1" and t: "turn_op E op s1 = Returns (c, s')"
    by (auto simp: turn_Some)
  from deferred_commit_Returns [OF d] True
  have "\<exists>cs. pushed s1 = pushed s @ cs \<and> kept s s1
     \<and> (cs = [] \<or> (\<exists>res. cs = [\<lparr>origin = Commit_error, target = dbqueue s, pushed_result = res\<rparr>]
               \<and> \<not> lastres res \<and> length (col res) = 1 \<and> commit_needed s (Some op)))"
    by auto
  with t True that show ?thesis by blast
next
  case False
  with assms have "turn_op E op s = Returns (c, s')"
    by (simp add: turn_Some)
  with False that [of s "[]"] show ?thesis by (simp add: kept_def)
qed

lemma turn_op_sql:
  assumes "turn_op E op s1 = Returns (c, s')"
    and "flags op \<noteq> SQLASYNC_OPEN" "flags op \<noteq> SQLASYNC_CLOSE"
    and "flags op \<noteq> SQLASYNC_QUIT" "flags op \<noteq> SQLASYNC_CUSTOM"
  shows "\<exists>ps fp. pushed s' = pushed s1 @ ps @ [fp] \<and> rows_to (opq op) ps \<and> final_to (opq op) fp"
proof -
  from assms obtain s2 where q: "sqlasync_thread_sql E s1 op = Returns s2"
    and s': "s' = s2\<lparr>donext := (chain (flags op) = SQLASYNC_NEXT)\<rparr>"
    by (auto simp: turn_op_def)
  from sql_Returns [OF q] show ?thesis unfolding s' by simp
qed

lemma no_commit_error_simps [simp]:
  "no_commit_error (s\<lparr>donext := d\<rparr>) = no_commit_error s"
  "no_commit_error (s\<lparr>engine := e\<rparr>) = no_commit_error s"
  by (simp_all add: no_commit_error_def)

lemma turn_op_pushes:
  assumes "turn_op E op s1 = Returns (c, s')"
  shows "\<exists>ps. pushed s' = pushed s1 @ ps \<and> (\<forall>p \<in> set ps. origin p \<noteq> Commit_error)"
proof -
  consider (opn) "flags op = SQLASYNC_OPEN"
    | (cls) "flags op \<noteq> SQLASYNC_OPEN" "flags op = SQLASYNC_CLOSE"
    | (quit) "flags op \<noteq> SQLASYNC_OPEN" "flags op \<noteq> SQLASYNC_CLOSE" "flags op = SQLASYNC_QUIT"
    | (custom) "flags op \<noteq> SQLASYNC_OPEN" "flags op \<noteq> SQLASYNC_CLOSE" "flags op \<noteq> SQLASYNC_QUIT"
        "flags op = SQLASYNC_CUSTOM"
    | (sql) "flags op \<noteq> SQLASYNC_OPEN" "flags op \<noteq> SQLASYNC_CLOSE" "flags op \<noteq> SQLASYNC_QUIT"
        "flags op \<noteq> SQLASYNC_CUSTOM"
    by blast
  then show ?thesis
  proof cases
    case opn
    with assms have "sqlasync_thread_open E s1 op = Returns s'"
      by (auto simp: turn_op_def)
    from open_Returns [OF this] show ?thesis by auto
  next
    case cls
    with assms have "s' = sqlasync_thread_close E s1"
      by (auto simp: turn_op_def)
    then show ?thesis by simp
  next
    case quit
    with assms have "s' = s1" by (auto simp: turn_op_def)
    then show ?thesis by simp
  next
    case custom
    with assms obtain rs e where "s' = fold (\<lambda>x. send Custom_result (fst x) (snd x)) rs (s1\<lparr>engine := e\<rparr>)"
      by (auto simp: turn_op_def split: prod.splits)
    then show ?thesis by (auto simp: fold_send)
  next
    case sql
    from turn_op_sql [OF assms sql] obtain ps fp where
      "pushed s' = pushed s1 @ ps @ [fp]" "rows_to (opq op) ps" "final_to (opq op) fp"
      by blast
    then have "pushed s' = pushed s1 @ (ps @ [fp]) \<and> (\<forall>p \<in> set (ps @ [fp]). origin p \<noteq> Commit_error)"
      by (auto simp: rows_to_def final_to_def)
    then show ?thesis by blast
  qed
qed

lemma turn_commit_errors:
  assumes "thread_turn E ev s = Returns (c, s')"
  shows "\<forall>p \<in> set (new_pushes s s'). origin p = Commit_error
      \<longrightarrow> target p = dbqueue s \<and> \<not> lastres (pushed_result p) \<and> commit_needed s ev"
proof (cases ev)
  case None
  with assms obtain s1 where d: "deferred_commit E s = Returns s1" and s': "s' = s1"
    by (auto simp: turn_None split: if_splits)
  from deferred_commit_Returns [OF d] None show ?thesis
    unfolding s' by (auto simp: new_pushes_def commit_needed_def)
next
  case (Some op)
  with assms have a: "thread_turn E (Some op) s = Returns (c, s')" by simp
  from a obtain s1 cs where t: "turn_op E op s1 = Returns (c, s')"
    and p1: "pushed s1 = pushed s @ cs"
    and cs: "cs = [] \<or> (\<exists>res. cs = [\<lparr>origin = Commit_error, target = dbqueue s, pushed_result = res\<rparr>]
               \<and> \<not> lastres res \<and> length (col res) = 1 \<and> commit_needed s (Some op))"
    by (rule turn_parts)
  from turn_op_pushes [OF t] obtain ps where ps: "pushed s' = pushed s1 @ ps"
    "\<forall>p \<in> set ps. origin p \<noteq> Commit_error" by blast
  have "new_pushes s s' = cs @ ps"
    using ps(1) p1 by (simp add: new_pushes_def)
  with cs ps(2) Some show ?thesis by auto
qed

lemma untimed_init: "untimed_inv (sqlasync_create None e0)"
  by (simp add: untimed_inv_def sqlasync_create_def sqlasync_havetranstimeout_def no_commit_error_def)

lemma untimed_close: "untimed_inv s \<Longrightarrow> untimed_inv (sqlasync_thread_close E s)"
  by (simp add: untimed_inv_def sqlasync_havetranstimeout_def no_commit_error_def)

lemma untimed_turn:
  assumes "untimed_inv s" "thread_turn E ev s = Returns (c, s')"
  shows "untimed_inv s'"
proof -
  have nc: "\<not> commit_needed s ev"
    using untimed_needs_no_commit [OF assms(1), of ev E] assms(2) by auto
  then obtain op where ev: "ev = Some op"
    by (cases ev) (simp_all add: commit_needed_def)
  with assms(2) nc have t: "turn_op E op s = Returns (c, s')"
    by (simp add: turn_Some)
  from turn_op_pushes [OF t] assms(1) have npe: "no_commit_error s'"
    by (auto simp: untimed_inv_def no_commit_error_def)
  consider (opn) "flags op = SQLASYNC_OPEN"
    | (cls) "flags op \<noteq> SQLASYNC_OPEN" "flags op = SQLASYNC_CLOSE"
    | (quit) "flags op \<noteq> SQLASYNC_OPEN" "flags op \<noteq> SQLASYNC_CLOSE" "flags op = SQLASYNC_QUIT"
    | (custom) "flags op \<noteq> SQLASYNC_OPEN" "flags op \<noteq> SQLASYNC_CLOSE" "flags op \<noteq> SQLASYNC_QUIT"
        "flags op = SQLASYNC_CUSTOM"
    | (sql) "flags op \<noteq> SQLASYNC_OPEN" "flags op \<noteq> SQLASYNC_CLOSE" "flags op \<noteq> SQLASYNC_QUIT"
        "flags op \<noteq> SQLASYNC_CUSTOM"
    by blast
  then show ?thesis
  proof cases
    case opn
    with t have "sqlasync_thread_open E s op = Returns s'"
      by (auto simp: turn_op_def)
    from open_Returns [OF this] assms(1) npe show ?thesis
      by (simp add: untimed_inv_def sqlasync_havetranstimeout_def)
  next
    case cls
    with t have "s' = sqlasync_thread_close E s"
      by (auto simp: turn_op_def)
    with assms(1) show ?thesis by (simp add: untimed_close)
  next
    case quit
    with t have "s' = s" by (auto simp: turn_op_def)
    with assms(1) show ?thesis by simp
  next
    case custom
    with t obtain rs e where "s' = fold (\<lambda>x. send Custom_result (fst x) (snd x)) rs (s\<lparr>engine := e\<rparr>)"
      by (auto simp: turn_op_def split: prod.splits)
    with assms(1) npe show ?thesis
      by (simp add: fold_send untimed_inv_def sqlasync_havetranstimeout_def)
  next
    case sql
    with t obtain s2 where q: "sqlasync_thread_sql E s op = Returns s2"
      and s': "s' = s2\<lparr>donext := (chain (flags op) = SQLASYNC_NEXT)\<rparr>"
      by (auto simp: turn_op_def)
    from nc ev have single: "chain (flags op) = SQLASYNC_SINGLE \<longrightarrow> \<not> intrans s"
      by (auto simp: commit_needed_def)
    from assms(1) have i: "\<not> sqlasync_havetranstimeout s" "intrans s \<longrightarrow> donext s"
      "errtrans s \<longrightarrow> \<not> intrans s"
      by (simp_all add: untimed_inv_def)
    from sql_flags [OF q i single] sql_Returns [OF q] i(1) npe show ?thesis
      unfolding s' by (simp add: untimed_inv_def sqlasync_havetranstimeout_def kept_def)
  qed
qed

lemma untimed_thread:
  "untimed_inv s \<Longrightarrow> sqlasync_thread E evs s = Returns s' \<Longrightarrow> untimed_inv s'"
proof (induction evs arbitrary: s)
  case Nil
  then show ?case by simp
next
  case (Cons ev evs)
  obtain x where x: "thread_turn E ev s = Returns x"
    using Cons.prems(2) by (cases "thread_turn E ev s") simp_all
  define c where "c = fst x"
  define s1 where "s1 = snd x"
  have t: "thread_turn E ev s = Returns (c, s1)"
    using x by (simp add: c_def s1_def)
  have r: "(if c then sqlasync_thread E evs s1 else Returns (sqlasync_thread_close E s1)) = Returns s'"
    using Cons.prems(2) x by (cases "fst x") (simp_all add: c_def s1_def)
  from untimed_turn [OF Cons.prems(1) t] have i: "untimed_inv s1" .
  show ?case
  proof (cases c)
    case True
    with r i show ?thesis by (auto intro: Cons.IH)
  next
    case False
    with r i show ?thesis by (auto intro: untimed_close)
  qed
qed

lemmas demo_defs2 = demo_opened_def demo_timed_def toy_close_def toy_custom_def turn_summary_def

lemma demo_opened: "thread_turn toy (Some toy_open) (sqlasync_create None []) = Returns (True, demo_opened)"
  by (simp add: worker_defs demo_defs demo_defs2 exec_rows.simps step_retry.simps del: obind_Returns)

lemma demo_timed: "sqlasync_thread toy [Some toy_open, Some (toy_sql 0 ''poison'')]
    (sqlasync_create (Some (0, 100)) []) = Returns demo_timed"
  by (simp add: worker_defs demo_defs demo_defs2 exec_rows.simps step_retry.simps del: obind_Returns)

lemma osim_Returns: "R x y \<Longrightarrow> osim R (Returns x) (Returns y)"
  by (simp add: osim_def)

lemma osim_obind:
  assumes "osim R m m'" and "\<And>x y. R x y \<Longrightarrow> osim S (f x) (f' y)"
  shows "osim S (obind m f) (obind m' f')"
proof (cases m)
  case (Returns x)
  with assms(1) obtain y where y: "m' = Returns y" "R x y"
    by (auto simp: osim_def)
  from assms(2) [OF y(2)] show ?thesis
    by (simp add: Returns y(1) obind_def)
next
  case Assert_fails
  with assms(1) show ?thesis by (simp add: osim_def obind_def)
next
  case Hangs
  with assms(1) show ?thesis by (simp add: osim_def obind_def)
qed

lemma osim_if:
  assumes "c \<Longrightarrow> osim R a a'" and "\<not> c \<Longrightarrow> osim R b b'"
  shows "osim R (if c then a else b) (if c then a' else b')"
  using assms by simp

lemma osim_same: "(\<And>x. m = Returns x \<Longrightarrow> R x x) \<Longrightarrow> osim R m m"
  by (cases m) (simp_all add: osim_def)

lemma muted_sel:
  assumes "muted n s t"
  shows "transtimeout t = transtimeout s" "db t = db s" "dbqueue t = dbqueue s"
    "s_begin t = s_begin s" "s_commit t = s_commit s" "s_rollback t = s_rollback s"
    "intrans t = intrans s" "errtrans t = errtrans s" "donext t = donext s" "engine t = engine s"
    "sqlasync_havetranstimeout t = sqlasync_havetranstimeout s"
  using assms by (simp_all add: muted_def discard_from_def sqlasync_havetranstimeout_def)

lemma muted_upd:
  assumes "muted n s t"
  shows "muted n (s\<lparr>engine := e\<rparr>) (t\<lparr>engine := e\<rparr>)"
    "muted n (s\<lparr>intrans := b\<rparr>) (t\<lparr>intrans := b\<rparr>)"
    "muted n (s\<lparr>errtrans := b\<rparr>) (t\<lparr>errtrans := b\<rparr>)"
    "muted n (s\<lparr>s_begin := x\<rparr>) (t\<lparr>s_begin := x\<rparr>)"
    "muted n (s\<lparr>s_commit := x\<rparr>) (t\<lparr>s_commit := x\<rparr>)"
    "muted n (s\<lparr>s_rollback := x\<rparr>) (t\<lparr>s_rollback := x\<rparr>)"
  using assms by (simp_all add: muted_def discard_from_def)

lemma muted_send:
  assumes "muted n s t"
  shows "muted n (send og qp r s) (send og None r t)"
  using assms by (simp add: muted_def discard_from_def send_def)

lemma muted_refl: "muted (length (pushed s)) s s"
  by (simp add: muted_def discard_from_def)

lemma cached_stmt_muted:
  assumes "muted n s t"
  shows "cached_stmt E txt c t = cached_stmt E txt c s"
  by (simp only: cached_stmt_def muted_sel [OF assms])

lemma begin_muted:
  assumes "muted n s t"
  shows "osim (muted n) (sqlasync_thread_begin E s) (sqlasync_thread_begin E t)"
proof -
  have c: "cached_stmt E ''BEGIN'' (s_begin t) t = cached_stmt E ''BEGIN'' (s_begin s) s"
    by (simp add: cached_stmt_muted [OF assms] muted_sel [OF assms])
  show ?thesis
    unfolding sqlasync_thread_begin_def c
  proof (rule osim_obind [where R = "(=)"])
    show "osim (=) (cached_stmt E ''BEGIN'' (s_begin s) s) (cached_stmt E ''BEGIN'' (s_begin s) s)"
      by (rule osim_same) simp
  next
    fix x y :: "nat option \<times> 'a"
    assume "x = y"
    then show "osim (muted n)
        (case x of (st, e) \<Rightarrow> Returns (s\<lparr>s_begin := st,
            engine := sqlite3_reset E st (snd (sqlite3_step E st e)), intrans := True\<rparr>))
        (case y of (st, e) \<Rightarrow> Returns (t\<lparr>s_begin := st,
            engine := sqlite3_reset E st (snd (sqlite3_step E st e)), intrans := True\<rparr>))"
      using assms by (cases y) (simp add: osim_def muted_def discard_from_def)
  qed
qed

lemma rollback_muted:
  assumes "muted n s t"
  shows "osim (muted n) (sqlasync_thread_rollback E s) (sqlasync_thread_rollback E t)"
proof -
  have c: "cached_stmt E ''ROLLBACK'' (s_rollback t) t = cached_stmt E ''ROLLBACK'' (s_rollback s) s"
    by (simp add: cached_stmt_muted [OF assms] muted_sel [OF assms])
  show ?thesis
    unfolding sqlasync_thread_rollback_def c
  proof (rule osim_obind [where R = "(=)"])
    show "osim (=) (cached_stmt E ''ROLLBACK'' (s_rollback s) s)
        (cached_stmt E ''ROLLBACK'' (s_rollback s) s)"
      by (rule osim_same) simp
  next
    fix x y :: "nat option \<times> 'a"
    assume "x = y"
    then show "osim (muted n)
        (case x of (st, e) \<Rightarrow> Returns (s\<lparr>s_rollback := st,
            engine := sqlite3_reset E st (snd (sqlite3_step E st e)), intrans := False\<rparr>))
        (case y of (st, e) \<Rightarrow> Returns (t\<lparr>s_rollback := st,
            engine := sqlite3_reset E st (snd (sqlite3_step E st e)), intrans := False\<rparr>))"
      using assms by (cases y) (simp add: osim_def muted_def discard_from_def)
  qed
qed

lemma commit_muted:
  assumes "muted n s t"
  shows "osim (\<lambda>x y. fst y = fst x \<and> muted n (snd x) (snd y))
           (sqlasync_thread_commit E s) (sqlasync_thread_commit E t)"
proof -
  have c: "cached_stmt E ''COMMIT'' (s_commit t) t = cached_stmt E ''COMMIT'' (s_commit s) s"
    by (simp add: cached_stmt_muted [OF assms] muted_sel [OF assms])
  have inner: "osim (\<lambda>x y. fst y = fst x \<and> muted n (snd x) (snd y))
      (obind (let s1 = s\<lparr>s_commit := st, engine := sqlite3_reset E st e1\<rparr>
              in if r \<noteq> SQLITE_DONE then sqlasync_thread_rollback E s1 else Returns s1)
         (\<lambda>s2. Returns (r, s2\<lparr>intrans := False\<rparr>)))
      (obind (let s1 = t\<lparr>s_commit := st, engine := sqlite3_reset E st e1\<rparr>
              in if r \<noteq> SQLITE_DONE then sqlasync_thread_rollback E s1 else Returns s1)
         (\<lambda>s2. Returns (r, s2\<lparr>intrans := False\<rparr>)))" for st e1 r
  proof -
    have m: "muted n (s\<lparr>s_commit := st, engine := sqlite3_reset E st e1\<rparr>)
                     (t\<lparr>s_commit := st, engine := sqlite3_reset E st e1\<rparr>)"
      using assms by (simp add: muted_def discard_from_def)
    show ?thesis
      unfolding Let_def
    proof (rule osim_obind [where R = "muted n"])
      show "osim (muted n)
          (if r \<noteq> SQLITE_DONE
           then sqlasync_thread_rollback E (s\<lparr>s_commit := st, engine := sqlite3_reset E st e1\<rparr>)
           else Returns (s\<lparr>s_commit := st, engine := sqlite3_reset E st e1\<rparr>))
          (if r \<noteq> SQLITE_DONE
           then sqlasync_thread_rollback E (t\<lparr>s_commit := st, engine := sqlite3_reset E st e1\<rparr>)
           else Returns (t\<lparr>s_commit := st, engine := sqlite3_reset E st e1\<rparr>))"
        using rollback_muted [OF m] m by (simp add: osim_def)
    next
      fix x y :: "'a sqlasync_t"
      assume "muted n x y"
      then show "osim (\<lambda>x y. fst y = fst x \<and> muted n (snd x) (snd y))
          (Returns (r, x\<lparr>intrans := False\<rparr>)) (Returns (r, y\<lparr>intrans := False\<rparr>))"
        by (simp add: osim_def muted_def discard_from_def)
    qed
  qed
  show ?thesis
    unfolding sqlasync_thread_commit_def c
  proof (rule osim_obind [where R = "(=)"])
    show "osim (=) (cached_stmt E ''COMMIT'' (s_commit s) s) (cached_stmt E ''COMMIT'' (s_commit s) s)"
      by (rule osim_same) simp
  next
    fix x y :: "nat option \<times> 'a"
    assume xy: "x = y"
    obtain st e where y: "y = (st, e)" by (cases y)
    have "osim (\<lambda>x y. fst y = fst x \<and> muted n (snd x) (snd y))
        (obind (of_option (step_retry E st e)) (\<lambda>(r, e1).
           obind (let s1 = s\<lparr>s_commit := st, engine := sqlite3_reset E st e1\<rparr>
                  in if r \<noteq> SQLITE_DONE then sqlasync_thread_rollback E s1 else Returns s1)
             (\<lambda>s2. Returns (r, s2\<lparr>intrans := False\<rparr>))))
        (obind (of_option (step_retry E st e)) (\<lambda>(r, e1).
           obind (let s1 = t\<lparr>s_commit := st, engine := sqlite3_reset E st e1\<rparr>
                  in if r \<noteq> SQLITE_DONE then sqlasync_thread_rollback E s1 else Returns s1)
             (\<lambda>s2. Returns (r, s2\<lparr>intrans := False\<rparr>))))"
    proof (rule osim_obind [where R = "(=)"])
      show "osim (=) (of_option (step_retry E st e)) (of_option (step_retry E st e))"
        by (rule osim_same) simp
    next
      fix a b :: "int \<times> 'a"
      assume "a = b"
      then show "osim (\<lambda>x y. fst y = fst x \<and> muted n (snd x) (snd y))
          (case a of (r, e1) \<Rightarrow>
             obind (let s1 = s\<lparr>s_commit := st, engine := sqlite3_reset E st e1\<rparr>
                    in if r \<noteq> SQLITE_DONE then sqlasync_thread_rollback E s1 else Returns s1)
               (\<lambda>s2. Returns (r, s2\<lparr>intrans := False\<rparr>)))
          (case b of (r, e1) \<Rightarrow>
             obind (let s1 = t\<lparr>s_commit := st, engine := sqlite3_reset E st e1\<rparr>
                    in if r \<noteq> SQLITE_DONE then sqlasync_thread_rollback E s1 else Returns s1)
               (\<lambda>s2. Returns (r, s2\<lparr>intrans := False\<rparr>)))"
        using inner by (cases b) simp
    qed
    with xy y show "osim (\<lambda>x y. fst y = fst x \<and> muted n (snd x) (snd y))
        (case x of (st, e) \<Rightarrow>
           obind (of_option (step_retry E st e)) (\<lambda>(r, e1).
           obind (let s1 = s\<lparr>s_commit := st, engine := sqlite3_reset E st e1\<rparr>
                  in if r \<noteq> SQLITE_DONE then sqlasync_thread_rollback E s1 else Returns s1)
             (\<lambda>s2. Returns (r, s2\<lparr>intrans := False\<rparr>))))
        (case y of (st, e) \<Rightarrow>
           obind (of_option (step_retry E st e)) (\<lambda>(r, e1).
           obind (let s1 = t\<lparr>s_commit := st, engine := sqlite3_reset E st e1\<rparr>
                  in if r \<noteq> SQLITE_DONE then sqlasync_thread_rollback E s1 else Returns s1)
             (\<lambda>s2. Returns (r, s2\<lparr>intrans := False\<rparr>))))"
      by simp
  qed
qed

lemma exec_rows_ends:
  assumes "exec_rows E qp st t = Some y" and "engine s = engine t" and "intrans s = intrans t"
  shows "\<exists>z. exec_rows E q st s = Some z"
  using assms
proof (induction arbitrary: s rule: exec_rows.raw_induct [rotated 1, consumes 1, case_names step])
  case (step loop E qp st t y)
  from step(2) obtain x where
    x0: "(if intrans t then Some (sqlite3_step E st (engine t)) else step_retry E st (engine t)) = Some x"
    and x: "(if fst x = SQLITE_ROW
         then loop E qp st (sqlasync_thread_row E qp st (t\<lparr>engine := snd x\<rparr>))
         else Some (fst x, t\<lparr>engine := snd x\<rparr>)) = Some y"
    by (auto split: option.splits)
  from x0
  have s0: "(if intrans s then Some (sqlite3_step E st (engine s)) else step_retry E st (engine s)) = Some x"
    by (simp only: step(3) step(4))
  show ?case
  proof (cases "fst x = SQLITE_ROW")
    case True
    with x have l: "loop E qp st (sqlasync_thread_row E qp st (t\<lparr>engine := snd x\<rparr>)) = Some y"
      by simp
    have "\<exists>z. exec_rows E q st (sqlasync_thread_row E q st (s\<lparr>engine := snd x\<rparr>)) = Some z"
      by (rule step(1) [OF l])
         (simp_all add: sqlasync_thread_row_def send_def Let_def step(4))
    then show ?thesis
      by (subst exec_rows.simps) (simp add: s0 True)
  next
    case False
    then show ?thesis
      by (subst exec_rows.simps) (simp add: s0)
  qed
qed

lemma exec_rows_muted1:
  assumes "exec_rows E qp st s = Some y" and "muted n s t"
  shows "\<exists>z. exec_rows E None st t = Some z \<and> fst z = fst y \<and> muted n (snd y) (snd z)"
  using assms
proof (induction arbitrary: t rule: exec_rows.raw_induct [rotated 1, consumes 1, case_names step])
  case (step loop E qp st s y)
  note m = step(3)
  from step(2) obtain x where
    x0: "(if intrans s then Some (sqlite3_step E st (engine s)) else step_retry E st (engine s)) = Some x"
    and x: "(if fst x = SQLITE_ROW
         then loop E qp st (sqlasync_thread_row E qp st (s\<lparr>engine := snd x\<rparr>))
         else Some (fst x, s\<lparr>engine := snd x\<rparr>)) = Some y"
    by (auto split: option.splits)
  from x0 have t0: "(if intrans t then Some (sqlite3_step E st (engine t)) else step_retry E st (engine t)) = Some x"
    by (simp only: muted_sel [OF m])
  show ?case
  proof (cases "fst x = SQLITE_ROW")
    case True
    with x have l: "loop E qp st (sqlasync_thread_row E qp st (s\<lparr>engine := snd x\<rparr>)) = Some y"
      by simp
    have "muted n (sqlasync_thread_row E qp st (s\<lparr>engine := snd x\<rparr>))
                  (sqlasync_thread_row E None st (t\<lparr>engine := snd x\<rparr>))"
      using m by (simp add: sqlasync_thread_row_def Let_def send_def muted_def discard_from_def)
    from step(1) [OF l this]
    show ?thesis
      by (subst exec_rows.simps) (simp add: t0 True)
  next
    case False
    with x have "y = (fst x, s\<lparr>engine := snd x\<rparr>)" by simp
    with False muted_upd(1) [OF m, of "snd x"] show ?thesis
      by (subst exec_rows.simps) (simp add: t0)
  qed
qed

lemma exec_rows_muted:
  assumes "muted n s t"
  shows "osim (\<lambda>x y. fst y = fst x \<and> muted n (snd x) (snd y))
           (of_option (exec_rows E qp st s)) (of_option (exec_rows E None st t))"
proof (cases "exec_rows E qp st s")
  case None
  have "exec_rows E None st t = None"
  proof (rule ccontr)
    assume "exec_rows E None st t \<noteq> None"
    then obtain y where "exec_rows E None st t = Some y" by blast
    from exec_rows_ends [OF this, of s qp] None show False
      by (simp add: muted_sel [OF assms])
  qed
  with None show ?thesis by (simp add: osim_def of_option_def)
next
  case (Some y)
  from exec_rows_muted1 [OF Some assms] Some show ?thesis
    by (auto simp: osim_def of_option_def)
qed

lemma sql_final_muted:
  assumes "muted n s t"
  shows "muted n (sql_final E op (r, st, s)) (sql_final E (op\<lparr>opq := None\<rparr>) (r, st, t))"
  using assms
  by (simp add: sql_final_def sqlasync_thread_final_def Let_def send_def muted_def discard_from_def)

lemma osim_obind2:
  assumes "osim (\<lambda>x y. fst y = fst x \<and> R (snd x) (snd y)) m m'"
    and "\<And>r a b. R a b \<Longrightarrow> osim S (f r a) (f' r b)"
  shows "osim S (obind m (\<lambda>(r, a). f r a)) (obind m' (\<lambda>(r, b). f' r b))"
proof (rule osim_obind [OF assms(1)])
  fix x :: "'a \<times> 'b" and y :: "'a \<times> 'c"
  assume "fst y = fst x \<and> R (snd x) (snd y)"
  then show "osim S (case x of (r, a) \<Rightarrow> f r a) (case y of (r, b) \<Rightarrow> f' r b)"
    using assms(2) [of "snd x" "snd y" "fst x"] by (cases x, cases y) simp
qed

lemma osim_obind3:
  assumes "osim (\<lambda>x y. fst y = fst x \<and> fst (snd y) = fst (snd x)
              \<and> R (snd (snd x)) (snd (snd y))) m m'"
    and "\<And>r st a b. R a b \<Longrightarrow> osim S (f r st a) (f' r st b)"
  shows "osim S (obind m (\<lambda>(r, st, a). f r st a)) (obind m' (\<lambda>(r, st, b). f' r st b))"
proof (rule osim_obind [OF assms(1)])
  fix x :: "'a \<times> 'b \<times> 'c" and y :: "'a \<times> 'b \<times> 'd"
  assume "fst y = fst x \<and> fst (snd y) = fst (snd x) \<and> R (snd (snd x)) (snd (snd y))"
  then show "osim S (case x of (r, st, a) \<Rightarrow> f r st a) (case y of (r, st, b) \<Rightarrow> f' r st b)"
    using assms(2) [of "snd (snd x)" "snd (snd y)" "fst x" "fst (snd x)"]
    by (cases x, cases y) simp
qed

lemma exec_muted:
  assumes m: "muted n s t"
  shows "osim (\<lambda>x y. fst y = fst x \<and> fst (snd y) = fst (snd x) \<and> muted n (snd (snd x)) (snd (snd y)))
           (sqlasync_thread_exec E s op) (sqlasync_thread_exec E t (op\<lparr>opq := None\<rparr>))"
proof -
  obtain r0 st0 e0 where p: "sqlite3_prepare_v2 E (db s) (str op) (engine s) = (r0, st0, e0)"
    by (cases "sqlite3_prepare_v2 E (db s) (str op) (engine s)") auto
  then have p': "sqlite3_prepare_v2 E (db t) (str op) (engine t) = (r0, st0, e0)"
    by (simp only: muted_sel [OF m])
  show ?thesis
  proof (cases "r0 \<noteq> SQLITE_OK \<or> st0 = None")
    case True
    then show ?thesis
      using muted_upd(1) [OF m]
      by (auto simp: sqlasync_thread_exec_def p p' osim_def)
  next
    case False
    have b: "muted n (s\<lparr>engine := sqlasync_thread_bind E op st0 e0\<rparr>)
                     (t\<lparr>engine := sqlasync_thread_bind E (op\<lparr>opq := None\<rparr>) st0 e0\<rparr>)"
      using muted_upd(1) [OF m] by (simp add: sqlasync_thread_bind_def)
    have "osim (\<lambda>x y. fst y = fst x \<and> fst (snd y) = fst (snd x) \<and> muted n (snd (snd x)) (snd (snd y)))
        (obind (of_option (exec_rows E (opq op) st0 (s\<lparr>engine := sqlasync_thread_bind E op st0 e0\<rparr>)))
           (\<lambda>(r1, s1). Returns (r1, st0, s1)))
        (obind (of_option (exec_rows E None st0
                  (t\<lparr>engine := sqlasync_thread_bind E (op\<lparr>opq := None\<rparr>) st0 e0\<rparr>)))
           (\<lambda>(r1, s1). Returns (r1, st0, s1)))"
      by (rule osim_obind2 [OF exec_rows_muted [OF b]]) (simp add: osim_def)
    moreover from False have "r0 = SQLITE_OK"
      by simp
    moreover from False obtain h where "st0 = Some h"
      by auto
    ultimately show ?thesis
      by (simp add: sqlasync_thread_exec_def p p' del: obind_Returns)
  qed
qed

lemma sql_muted:
  assumes m: "muted n s t"
  shows "osim (muted n) (sqlasync_thread_sql E s op) (sqlasync_thread_sql E t (op\<lparr>opq := None\<rparr>))"
proof -
  let ?op = "op\<lparr>opq := None\<rparr>"
  have fin: "osim (muted n) (Returns (sql_final E op (r, st, a))) (Returns (sql_final E ?op (r, st, b)))"
    if "muted n a b" for r st a b
    using sql_final_muted [OF that] by (simp add: osim_def)
  have undo: "osim (muted n)
      (if c \<and> intrans a then sqlasync_thread_rollback E a else Returns a)
      (if c \<and> intrans b then sqlasync_thread_rollback E b else Returns b)"
    if "muted n a b" for c a b
    using rollback_muted [OF that] that by (simp add: muted_sel [OF that] osim_Returns)
  have comm: "osim (\<lambda>x y. fst y = fst x \<and> muted n (snd x) (snd y))
      (if intrans a \<and> c then sqlasync_thread_commit E a else Returns (r, a))
      (if intrans b \<and> c then sqlasync_thread_commit E b else Returns (r, b))"
    if "muted n a b" for c r a b
    using commit_muted [OF that] that by (simp add: muted_sel [OF that] osim_Returns)
  have fl: "flags ?op = flags op"
    by simp
  consider (single) "chain (flags op) = SQLASYNC_SINGLE"
    | (aborted) "chain (flags op) \<noteq> SQLASYNC_SINGLE" "errtrans s"
    | (last) "chain (flags op) \<noteq> SQLASYNC_SINGLE" "\<not> errtrans s"
        "chain (flags op) = SQLASYNC_LAST
          \<or> (\<not> sqlasync_havetranstimeout s \<and> donext s \<and> chain (flags op) \<noteq> SQLASYNC_NEXT)"
    | (normal) "chain (flags op) \<noteq> SQLASYNC_SINGLE" "\<not> errtrans s"
        "\<not> (chain (flags op) = SQLASYNC_LAST
          \<or> (\<not> sqlasync_havetranstimeout s \<and> donext s \<and> chain (flags op) \<noteq> SQLASYNC_NEXT))"
    by blast
  then show ?thesis
  proof cases
    case single
    have "osim (muted n)
        (obind (sqlasync_thread_exec E s op) (\<lambda>x. Returns (sql_final E op x)))
        (obind (sqlasync_thread_exec E t ?op) (\<lambda>x. Returns (sql_final E ?op x)))"
    proof (rule osim_obind [OF exec_muted [OF m]])
      fix x y :: "int \<times> nat option \<times> 'a sqlasync_t"
      assume "fst y = fst x \<and> fst (snd y) = fst (snd x) \<and> muted n (snd (snd x)) (snd (snd y))"
      then show "osim (muted n) (Returns (sql_final E op x)) (Returns (sql_final E ?op y))"
        using fin [of "snd (snd x)" "snd (snd y)" "fst x" "fst (snd x)"]
        by (cases x, cases y) simp
    qed
    with single show ?thesis
      by (simp add: sqlasync_thread_sql_def del: obind_Returns)
  next
    case aborted
    have "osim (muted n)
        (Returns (sql_final E op (SQLITE_ERROR, None,
           if chain (flags op) \<noteq> SQLASYNC_NEXT then s\<lparr>errtrans := False\<rparr> else s)))
        (Returns (sql_final E ?op (SQLITE_ERROR, None,
           if chain (flags op) \<noteq> SQLASYNC_NEXT then t\<lparr>errtrans := False\<rparr> else t)))"
      by (rule fin) (simp add: m muted_upd(3) [OF m])
    with aborted show ?thesis
      by (simp add: sqlasync_thread_sql_def muted_sel [OF m] del: obind_Returns)
  next
    case last
    have tail: "osim (muted n)
         (obind (if intrans a \<and> r \<noteq> SQLITE_DONE then sqlasync_thread_rollback E a else Returns a) (\<lambda>s2.
          obind (if intrans s2 \<and> r = SQLITE_DONE then sqlasync_thread_commit E s2 else Returns (r, s2)) (\<lambda>(r3, s3).
            Returns (sql_final E op (r3, st, s3)))))
         (obind (if intrans b \<and> r \<noteq> SQLITE_DONE then sqlasync_thread_rollback E b else Returns b) (\<lambda>s2.
          obind (if intrans s2 \<and> r = SQLITE_DONE then sqlasync_thread_commit E s2 else Returns (r, s2)) (\<lambda>(r3, s3).
            Returns (sql_final E ?op (r3, st, s3)))))"
      if ab: "muted n a b" for r st a b
    proof (rule osim_obind [where R = "muted n"])
      show "osim (muted n)
          (if intrans a \<and> r \<noteq> SQLITE_DONE then sqlasync_thread_rollback E a else Returns a)
          (if intrans b \<and> r \<noteq> SQLITE_DONE then sqlasync_thread_rollback E b else Returns b)"
        using undo [OF ab, of "r \<noteq> SQLITE_DONE"] by (simp add: conj_commute)
    next
      fix x y :: "'a sqlasync_t"
      assume xy: "muted n x y"
      show "osim (muted n)
          (obind (if intrans x \<and> r = SQLITE_DONE then sqlasync_thread_commit E x else Returns (r, x))
             (\<lambda>(r3, s3). Returns (sql_final E op (r3, st, s3))))
          (obind (if intrans y \<and> r = SQLITE_DONE then sqlasync_thread_commit E y else Returns (r, y))
             (\<lambda>(r3, s3). Returns (sql_final E ?op (r3, st, s3))))"
        by (rule osim_obind2 [OF comm [OF xy]]) (rule fin)
    qed
    have "osim (muted n)
        (obind (sqlasync_thread_exec E s op) (\<lambda>(r, st, s1).
         obind (if intrans s1 \<and> r \<noteq> SQLITE_DONE then sqlasync_thread_rollback E s1 else Returns s1) (\<lambda>s2.
         obind (if intrans s2 \<and> r = SQLITE_DONE then sqlasync_thread_commit E s2 else Returns (r, s2)) (\<lambda>(r3, s3).
           Returns (sql_final E op (r3, st, s3))))))
        (obind (sqlasync_thread_exec E t ?op) (\<lambda>(r, st, s1).
         obind (if intrans s1 \<and> r \<noteq> SQLITE_DONE then sqlasync_thread_rollback E s1 else Returns s1) (\<lambda>s2.
         obind (if intrans s2 \<and> r = SQLITE_DONE then sqlasync_thread_commit E s2 else Returns (r, s2)) (\<lambda>(r3, s3).
           Returns (sql_final E ?op (r3, st, s3))))))"
      by (rule osim_obind3 [OF exec_muted [OF m]]) (rule tail)
    with last show ?thesis
      by (simp add: sqlasync_thread_sql_def muted_sel [OF m] del: obind_Returns)
  next
    case normal
    have tail: "osim (muted n)
         (obind (if st \<noteq> None \<and> r \<noteq> SQLITE_DONE
                 then obind (if intrans a then sqlasync_thread_rollback E a else Returns a) (\<lambda>s2.
                        Returns (if chain (flags op) = SQLASYNC_NEXT then s2\<lparr>errtrans := True\<rparr> else s2))
                 else Returns a) (\<lambda>s3.
            Returns (sql_final E op (r, st, s3))))
         (obind (if st \<noteq> None \<and> r \<noteq> SQLITE_DONE
                 then obind (if intrans b then sqlasync_thread_rollback E b else Returns b) (\<lambda>s2.
                        Returns (if chain (flags op) = SQLASYNC_NEXT then s2\<lparr>errtrans := True\<rparr> else s2))
                 else Returns b) (\<lambda>s3.
            Returns (sql_final E ?op (r, st, s3))))"
      if ab: "muted n a b" for r st a b
    proof (rule osim_obind [where R = "muted n"])
      have "osim (muted n)
          (obind (if intrans a then sqlasync_thread_rollback E a else Returns a) (\<lambda>s2.
             Returns (if chain (flags op) = SQLASYNC_NEXT then s2\<lparr>errtrans := True\<rparr> else s2)))
          (obind (if intrans b then sqlasync_thread_rollback E b else Returns b) (\<lambda>s2.
             Returns (if chain (flags op) = SQLASYNC_NEXT then s2\<lparr>errtrans := True\<rparr> else s2)))"
      proof (rule osim_obind [where R = "muted n"])
        show "osim (muted n)
            (if intrans a then sqlasync_thread_rollback E a else Returns a)
            (if intrans b then sqlasync_thread_rollback E b else Returns b)"
          using undo [OF ab, of True] by simp
      next
        fix x y :: "'a sqlasync_t"
        assume "muted n x y"
        then show "osim (muted n)
            (Returns (if chain (flags op) = SQLASYNC_NEXT then x\<lparr>errtrans := True\<rparr> else x))
            (Returns (if chain (flags op) = SQLASYNC_NEXT then y\<lparr>errtrans := True\<rparr> else y))"
          by (simp add: osim_def muted_upd(3))
      qed
      then show "osim (muted n)
          (if st \<noteq> None \<and> r \<noteq> SQLITE_DONE
           then obind (if intrans a then sqlasync_thread_rollback E a else Returns a) (\<lambda>s2.
                  Returns (if chain (flags op) = SQLASYNC_NEXT then s2\<lparr>errtrans := True\<rparr> else s2))
           else Returns a)
          (if st \<noteq> None \<and> r \<noteq> SQLITE_DONE
           then obind (if intrans b then sqlasync_thread_rollback E b else Returns b) (\<lambda>s2.
                  Returns (if chain (flags op) = SQLASYNC_NEXT then s2\<lparr>errtrans := True\<rparr> else s2))
           else Returns b)"
        using ab by (simp add: osim_Returns del: obind_Returns)
    next
      fix x y :: "'a sqlasync_t"
      assume "muted n x y"
      then show "osim (muted n) (Returns (sql_final E op (r, st, x))) (Returns (sql_final E ?op (r, st, y)))"
        by (rule fin)
    qed
    have eq_s: "sqlasync_thread_sql E s op =
        (obind (if \<not> intrans s \<and> (chain (flags op) = SQLASYNC_NEXT \<or> sqlasync_havetranstimeout s)
                then sqlasync_thread_begin E s else Returns s) (\<lambda>s0.
         obind (sqlasync_thread_exec E s0 op) (\<lambda>(r, st, s1).
         obind (if st \<noteq> None \<and> r \<noteq> SQLITE_DONE
                then obind (if intrans s1 then sqlasync_thread_rollback E s1 else Returns s1) (\<lambda>s2.
                       Returns (if chain (flags op) = SQLASYNC_NEXT then s2\<lparr>errtrans := True\<rparr> else s2))
                else Returns s1) (\<lambda>s3.
           Returns (sql_final E op (r, st, s3))))))"
      by (simp only: sqlasync_thread_sql_def normal if_False)
    have eq_t: "sqlasync_thread_sql E t ?op =
        (obind (if \<not> intrans s \<and> (chain (flags op) = SQLASYNC_NEXT \<or> sqlasync_havetranstimeout s)
                then sqlasync_thread_begin E t else Returns t) (\<lambda>s0.
         obind (sqlasync_thread_exec E s0 ?op) (\<lambda>(r, st, s1).
         obind (if st \<noteq> None \<and> r \<noteq> SQLITE_DONE
                then obind (if intrans s1 then sqlasync_thread_rollback E s1 else Returns s1) (\<lambda>s2.
                       Returns (if chain (flags op) = SQLASYNC_NEXT then s2\<lparr>errtrans := True\<rparr> else s2))
                else Returns s1) (\<lambda>s3.
           Returns (sql_final E ?op (r, st, s3))))))"
      by (simp only: sqlasync_thread_sql_def fl muted_sel [OF m] normal if_False)
    have "osim (muted n)
        (obind (if \<not> intrans s \<and> (chain (flags op) = SQLASYNC_NEXT \<or> sqlasync_havetranstimeout s)
                then sqlasync_thread_begin E s else Returns s) (\<lambda>s0.
         obind (sqlasync_thread_exec E s0 op) (\<lambda>(r, st, s1).
         obind (if st \<noteq> None \<and> r \<noteq> SQLITE_DONE
                then obind (if intrans s1 then sqlasync_thread_rollback E s1 else Returns s1) (\<lambda>s2.
                       Returns (if chain (flags op) = SQLASYNC_NEXT then s2\<lparr>errtrans := True\<rparr> else s2))
                else Returns s1) (\<lambda>s3.
           Returns (sql_final E op (r, st, s3))))))
        (obind (if \<not> intrans s \<and> (chain (flags op) = SQLASYNC_NEXT \<or> sqlasync_havetranstimeout s)
                then sqlasync_thread_begin E t else Returns t) (\<lambda>s0.
         obind (sqlasync_thread_exec E s0 ?op) (\<lambda>(r, st, s1).
         obind (if st \<noteq> None \<and> r \<noteq> SQLITE_DONE
                then obind (if intrans s1 then sqlasync_thread_rollback E s1 else Returns s1) (\<lambda>s2.
                       Returns (if chain (flags op) = SQLASYNC_NEXT then s2\<lparr>errtrans := True\<rparr> else s2))
                else Returns s1) (\<lambda>s3.
           Returns (sql_final E ?op (r, st, s3))))))"
    proof (rule osim_obind [where R = "muted n"])
      show "osim (muted n)
          (if \<not> intrans s \<and> (chain (flags op) = SQLASYNC_NEXT \<or> sqlasync_havetranstimeout s)
           then sqlasync_thread_begin E s else Returns s)
          (if \<not> intrans s \<and> (chain (flags op) = SQLASYNC_NEXT \<or> sqlasync_havetranstimeout s)
           then sqlasync_thread_begin E t else Returns t)"
        using begin_muted [OF m] m by (simp add: osim_Returns)
    next
      fix x y :: "'a sqlasync_t"
      assume xy: "muted n x y"
      show "osim (muted n)
          (obind (sqlasync_thread_exec E x op) (\<lambda>(r, st, s1).
           obind (if st \<noteq> None \<and> r \<noteq> SQLITE_DONE
                  then obind (if intrans s1 then sqlasync_thread_rollback E s1 else Returns s1) (\<lambda>s2.
                         Returns (if chain (flags op) = SQLASYNC_NEXT then s2\<lparr>errtrans := True\<rparr> else s2))
                  else Returns s1) (\<lambda>s3.
             Returns (sql_final E op (r, st, s3)))))
          (obind (sqlasync_thread_exec E y ?op) (\<lambda>(r, st, s1).
           obind (if st \<noteq> None \<and> r \<noteq> SQLITE_DONE
                  then obind (if intrans s1 then sqlasync_thread_rollback E s1 else Returns s1) (\<lambda>s2.
                         Returns (if chain (flags op) = SQLASYNC_NEXT then s2\<lparr>errtrans := True\<rparr> else s2))
                  else Returns s1) (\<lambda>s3.
             Returns (sql_final E ?op (r, st, s3)))))"
        by (rule osim_obind3 [OF exec_muted [OF xy]]) (rule tail)
    qed
    then show ?thesis
      by (simp only: eq_s eq_t)
  qed
qed

lemma deliver_null:
  assumes "\<forall>p \<in> set ps. target p = None"
  shows "deliver ps w = Some (w\<lparr>trace := trace w @ map (\<lambda>p. Result_freed (pushed_result p)) ps\<rparr>)"
  using assms
  by (induction ps arbitrary: w)
     (simp_all add: sqlasync_queue_result_def sqlasync_result_free_def emit_def)

lemma sql_null_queue:
  "sqlasync_thread_sql E s (op\<lparr>opq := None\<rparr>) =
     obind (sqlasync_thread_sql E s op) (\<lambda>s'. Returns (discard_from (length (pushed s)) s'))"
  using sql_muted [OF muted_refl, of s E op]
  by (cases "sqlasync_thread_sql E s op") (auto simp: osim_def muted_def)

lemma sql_null_pushes:
  assumes "sqlasync_thread_sql E s (op\<lparr>opq := None\<rparr>) = Returns s'"
  shows "\<forall>p \<in> set (new_pushes s s'). target p = None"
proof -
  from sql_Returns [OF assms] obtain ps fp where
    "pushed s' = pushed s @ ps @ [fp]" "rows_to None ps" "final_to None fp"
    by auto
  then show ?thesis
    by (auto simp: new_pushes_def rows_to_def final_to_def)
qed

lemma demo_discarded:
  "sqlasync_thread_sql toy demo_opened ((toy_sql 0 ''select'')\<lparr>opq := None\<rparr>) = Returns demo_discarded"
  by (simp add: worker_defs demo_defs demo_defs2 demo_discarded_def demo_row_def demo_done_def
      exec_rows.simps step_retry.simps del: obind_Returns)


section \<open>Properties\<close>

text \<open>
  C9.  A queue returned by \<^verbatim>\<open>sqlasync_queue_sync\<close> or \<^verbatim>\<open>sqlasync_queue_async\<close> has
  capacity \<^verbatim>\<open>UINT_MAX\<close>, the largest unsigned value, so it is unbounded;
  \<^verbatim>\<open>sqlasync_queue_buffersize\<close> with \<open>len = 0\<close> sets the capacity back to \<^verbatim>\<open>UINT_MAX\<close>,
  with any other \<open>len\<close> it sets it to \<open>len\<close>, and it always returns the pointer it was given.
\<close>

theorem C9_queue_capacity_default:
  "maxresults (queues (snd (sqlasync_queue_sync w)) (fst (sqlasync_queue_sync w))) = UINT_MAX
   \<and> maxresults (queues (snd (sqlasync_queue_async e f w)) (fst (sqlasync_queue_async e f w))) = UINT_MAX
   \<and> (\<forall>x :: uint. x \<le> UINT_MAX)
   \<and> maxresults (queues (snd (sqlasync_queue_buffersize q 0 w)) q) = UINT_MAX
   \<and> maxresults (queues (snd (sqlasync_queue_buffersize q len w)) q) = (if len = 0 then UINT_MAX else len)
   \<and> fst (sqlasync_queue_buffersize q len w) = q"
proof -
  have top: "UINT_MAX = (- 1 :: uint)"
    by (simp add: UINT_MAX_def)
  have "x \<le> UINT_MAX" for x :: uint
    unfolding top by (rule word_n1_ge)
  then show ?thesis
    by (simp add: sqlasync_queue_sync_def sqlasync_queue_async_def
        sqlasync_queue_buffersize_def setq_def Let_def)
qed



text \<open>
  C8.  Let a queue be created with capacity \<open>N\<close> (not 0) at any moment, and let any
  calls and dispatches follow.  The capacity stays \<open>N\<close>; the counter \<^verbatim>\<open>numresults\<close> is
  the number of results of the queue that no consumer has taken, and that number is at
  most \<open>N\<close>.  When it is \<open>N\<close> and the queue is not destroyed, a push waits (nothing is
  stored and nothing is dropped); after the consumer has taken a result, the waiting
  push goes on.
\<close>

theorem C8_backpressure:
  assumes "run_actions cb as1 (world_init sched) = Some w1"
    and "c = New_sync N \<or> c = New_async e f N"
    and "N \<noteq> 0"
    and "run_actions cb (Call c # as2) w1 = Some w"
  shows "maxresults (queues w (nextq w1)) = N
    \<and> unat (numresults (queues w (nextq w1))) = undelivered w (nextq w1)
    \<and> undelivered w (nextq w1) \<le> unat N
    \<and> (\<not> destroyed (queues w (nextq w1)) \<and> undelivered w (nextq w1) = unat N
          \<longrightarrow> sqlasync_queue_result (Some (nextq w1)) r w = None)
    \<and> (\<forall>x w'. sqlasync_queue_get (nextq w1) w = Some (Some x, w')
          \<longrightarrow> queue_result_resume (nextq w1) r w' = Some (result_deliver (nextq w1) r w'))"
proof -
  let ?q = "nextq w1"
  obtain w2 where c: "run_call c w1 = Some w2" and rest: "run_actions cb as2 w2 = Some w"
    using assms(4) by (auto split: option.splits)
  have "world_inv (world_init sched)"
    by (simp add: world_inv_def queue_ok_init) (simp add: fresh_ok_def world_init_def calloc_queue_def)
  then have "world_inv w1"
    using assms(1) by (rule run_actions_inv)
  then have "world_inv w2" using c by (rule run_call_inv)
  then have i: "world_inv w" using rest by (rule run_actions_inv)
  have new: "maxresults (queues w2 ?q) = N \<and> ?q < nextq w2"
    using c assms(2,3)
    by (auto simp: sqlasync_queue_sync_def sqlasync_queue_async_def sqlasync_queue_buffersize_def Let_def)
  have "caps_grow w2 w" using rest by (rule run_actions_grow)
  with new have cap: "maxresults (queues w ?q) = N"
    by (simp add: caps_grow_def)
  have u: "unat (numresults (queues w ?q)) = undelivered w ?q"
    and le: "numresults (queues w ?q) \<le> maxresults (queues w ?q)"
    using i by (simp_all add: world_inv_def queue_ok_def)
  from le cap u have bound: "undelivered w ?q \<le> unat N"
    by (simp add: word_le_nat_alt)
  have full: "sqlasync_queue_result (Some ?q) r w = None"
    if "\<not> destroyed (queues w ?q)" "undelivered w ?q = unat N"
  proof -
    from that(2) u cap have "numresults (queues w ?q) = maxresults (queues w ?q)"
      by (simp add: word_unat_eq_iff)
    with that(1) show ?thesis by (simp add: sqlasync_queue_result_def)
  qed
  have room: "queue_result_resume ?q r w' = Some (result_deliver ?q r w')"
    if "sqlasync_queue_get ?q w = Some (Some x, w')" for x w'
  proof -
    have "queue_ok w" using i by (simp add: world_inv_def)
    from queue_get_room [OF this that] show ?thesis
      by (simp add: queue_result_resume_def not_le [symmetric])
  qed
  from cap u bound full room show ?thesis by blast
qed

theorem C8_backpressure_witness:
  "run_actions demo_cb [] (world_init False) = Some (world_init False)
   \<and> run_actions demo_cb demo_full_actions (world_init False) = Some demo_full
   \<and> undelivered demo_full 0 = 1
   \<and> sqlasync_queue_result (Some 0) demo_done demo_full = None
   \<and> (\<exists>x w'. sqlasync_queue_get 0 demo_full = Some (Some x, w')
         \<and> queue_result_resume 0 demo_done w' = Some (result_deliver 0 demo_done w'))"
proof -
  have a: "run_actions demo_cb [] (world_init False) = Some (world_init False)"
    by simp
  have b: "run_actions demo_cb (Call (New_sync 1) # [Call (Schedule (Some 0)), Call (Result (Some 0) demo_row)])
             (world_init False) = Some demo_full"
    using demo_full by (simp add: demo_full_actions_def)
  have q: "nextq (world_init False) = 0"
    by (simp add: world_init_def)
  have u: "undelivered demo_full 0 = 1" and d: "\<not> destroyed (queues demo_full 0)"
    by (simp_all add: demo_full_def demo_full_actions_def undelivered_def queue_defs)
  obtain x w' where g: "sqlasync_queue_get 0 demo_full = Some (Some x, w')"
    by (simp add: demo_full_def demo_full_actions_def queue_defs)
  note C8 = C8_backpressure [OF a _ _ b, of 1 False 0 demo_done, simplified q]
  from C8 u d have "sqlasync_queue_result (Some 0) demo_done demo_full = None"
    by simp
  moreover from C8 g have "queue_result_resume 0 demo_done w' = Some (result_deliver 0 demo_done w')"
    by simp
  ultimately show ?thesis
    using a demo_full u g by blast
qed

text \<open>
  C1, as the code has it.  While the abort flag \<^verbatim>\<open>errtrans\<close> is set, an operation
  without \<^verbatim>\<open>SQLASYNC_SINGLE\<close> fails with \<^verbatim>\<open>SQLITE_ERROR\<close>: nothing is prepared or stepped,
  the engine state is the same (only its message is read for the result), and the flag
  stays set exactly if the operation carries \<^verbatim>\<open>SQLASYNC_NEXT\<close>.  A
  \<^verbatim>\<open>SQLASYNC_NEXT\<close> member whose statement was prepared and then did not end with
  \<^verbatim>\<open>SQLITE_DONE\<close> makes the worker roll the transaction back and set the flag.  A
  member whose statement could not be prepared (or is empty) leaves the flag clear and
  the transaction open.  From the aborted state, any number of \<^verbatim>\<open>SQLASYNC_NEXT\<close>
  members given to the thread all fail in this way, the engine untouched.
\<close>

theorem C1_aborted_chain:
  "(errtrans s \<and> chain (flags op) \<noteq> SQLASYNC_SINGLE
      \<longrightarrow> sqlasync_thread_sql E s op =
            Returns (s\<lparr>errtrans := (chain (flags op) = SQLASYNC_NEXT),
                       pushed := pushed s @ [final_push E s op SQLITE_ERROR]\<rparr>))
   \<and> (\<not> errtrans s \<and> chain (flags op) = SQLASYNC_NEXT
       \<and> (if intrans s then Returns s else sqlasync_thread_begin E s) = Returns s0
       \<and> sqlasync_thread_exec E s0 op = Returns (r, st, s1)
       \<and> st \<noteq> None \<and> r \<noteq> SQLITE_DONE
       \<and> sqlasync_thread_rollback E s1 = Returns s2
      \<longrightarrow> sqlasync_thread_sql E s op = Returns (sql_final E op (r, st, s2\<lparr>errtrans := True\<rparr>))
          \<and> errtrans (sql_final E op (r, st, s2\<lparr>errtrans := True\<rparr>))
          \<and> \<not> intrans (sql_final E op (r, st, s2\<lparr>errtrans := True\<rparr>)))
   \<and> (\<not> errtrans s \<and> chain (flags op) = SQLASYNC_NEXT
       \<and> (if intrans s then Returns s else sqlasync_thread_begin E s) = Returns s0
       \<and> sqlasync_thread_exec E s0 op = Returns (r, None, s1)
      \<longrightarrow> sqlasync_thread_sql E s op = Returns (sql_final E op (r, None, s1))
          \<and> \<not> errtrans (sql_final E op (r, None, s1))
          \<and> intrans (sql_final E op (r, None, s1)))
   \<and> (errtrans s \<and> (\<forall>x \<in> set ops. chain (flags x) = SQLASYNC_NEXT)
      \<longrightarrow> sqlasync_thread E (map Some ops) s =
            Returns (s\<lparr>donext := (ops \<noteq> [] \<or> donext s),
                       pushed := pushed s @ map (\<lambda>x. final_push E s x SQLITE_ERROR) ops\<rparr>))"
proof (intro conjI impI)
  assume "errtrans s \<and> chain (flags op) \<noteq> SQLASYNC_SINGLE"
  then show "sqlasync_thread_sql E s op =
            Returns (s\<lparr>errtrans := (chain (flags op) = SQLASYNC_NEXT),
                       pushed := pushed s @ [final_push E s op SQLITE_ERROR]\<rparr>)"
    by (auto simp: sqlasync_thread_sql_def sql_final_eq final_push_def)
next
  assume a: "\<not> errtrans s \<and> chain (flags op) = SQLASYNC_NEXT
       \<and> (if intrans s then Returns s else sqlasync_thread_begin E s) = Returns s0
       \<and> sqlasync_thread_exec E s0 op = Returns (r, st, s1)
       \<and> st \<noteq> None \<and> r \<noteq> SQLITE_DONE
       \<and> sqlasync_thread_rollback E s1 = Returns s2"
  then have i0: "intrans s0" and e0: "\<not> errtrans s0"
    by (auto split: if_splits dest!: begin_Returns)
  with a have i1: "intrans s1"
    using exec_Returns [of E s0 op r st s1] by auto
  from a have n: "chain (flags op) \<noteq> SQLASYNC_SINGLE" "chain (flags op) \<noteq> SQLASYNC_LAST"
    by (simp_all add: SQLASYNC_NEXT_def SQLASYNC_SINGLE_def SQLASYNC_LAST_def)
  have b: "(if \<not> intrans s \<and> (chain (flags op) = SQLASYNC_NEXT \<or> sqlasync_havetranstimeout s)
            then sqlasync_thread_begin E s else Returns s) = Returns s0"
    using a by (cases "intrans s") simp_all
  have "sqlasync_thread_sql E s op =
      obind (sqlasync_thread_exec E s0 op) (\<lambda>(r, st, s1).
        obind (if st \<noteq> None \<and> r \<noteq> SQLITE_DONE
               then obind (if intrans s1 then sqlasync_thread_rollback E s1 else Returns s1) (\<lambda>s2.
                      Returns (if chain (flags op) = SQLASYNC_NEXT then s2\<lparr>errtrans := True\<rparr> else s2))
               else Returns s1) (\<lambda>s3.
          Returns (sql_final E op (r, st, s3))))"
    using a n unfolding sqlasync_thread_sql_def b by (simp del: obind_Returns)
  with a i1 show "sqlasync_thread_sql E s op = Returns (sql_final E op (r, st, s2\<lparr>errtrans := True\<rparr>))"
    by (simp del: obind_Returns)
  from a rollback_Returns [of E s1 s2]
  show "errtrans (sql_final E op (r, st, s2\<lparr>errtrans := True\<rparr>))"
    "\<not> intrans (sql_final E op (r, st, s2\<lparr>errtrans := True\<rparr>))"
    by (auto simp: sql_final_eq)
next
  assume a: "\<not> errtrans s \<and> chain (flags op) = SQLASYNC_NEXT
       \<and> (if intrans s then Returns s else sqlasync_thread_begin E s) = Returns s0
       \<and> sqlasync_thread_exec E s0 op = Returns (r, None, s1)"
  then have i0: "intrans s0" and e0: "\<not> errtrans s0"
    by (auto split: if_splits dest!: begin_Returns)
  with a have i1: "intrans s1" "\<not> errtrans s1"
    using exec_Returns [of E s0 op r None s1] by auto
  from a have n: "chain (flags op) \<noteq> SQLASYNC_SINGLE" "chain (flags op) \<noteq> SQLASYNC_LAST"
    by (simp_all add: SQLASYNC_NEXT_def SQLASYNC_SINGLE_def SQLASYNC_LAST_def)
  have b: "(if \<not> intrans s \<and> (chain (flags op) = SQLASYNC_NEXT \<or> sqlasync_havetranstimeout s)
            then sqlasync_thread_begin E s else Returns s) = Returns s0"
    using a by (cases "intrans s") simp_all
  have "sqlasync_thread_sql E s op =
      obind (sqlasync_thread_exec E s0 op) (\<lambda>(r, st, s1).
        obind (if st \<noteq> None \<and> r \<noteq> SQLITE_DONE
               then obind (if intrans s1 then sqlasync_thread_rollback E s1 else Returns s1) (\<lambda>s2.
                      Returns (if chain (flags op) = SQLASYNC_NEXT then s2\<lparr>errtrans := True\<rparr> else s2))
               else Returns s1) (\<lambda>s3.
          Returns (sql_final E op (r, st, s3))))"
    using a n unfolding sqlasync_thread_sql_def b by (simp del: obind_Returns)
  with a show "sqlasync_thread_sql E s op = Returns (sql_final E op (r, None, s1))"
    by (simp del: obind_Returns)
  from i1 show "\<not> errtrans (sql_final E op (r, None, s1))" "intrans (sql_final E op (r, None, s1))"
    by (simp_all add: sql_final_eq)
next
  assume "errtrans s \<and> (\<forall>x \<in> set ops. chain (flags x) = SQLASYNC_NEXT)"
  then show "sqlasync_thread E (map Some ops) s =
            Returns (s\<lparr>donext := (ops \<noteq> [] \<or> donext s),
                       pushed := pushed s @ map (\<lambda>x. final_push E s x SQLITE_ERROR) ops\<rparr>)"
    by (intro thread_aborted_members) simp_all
qed

theorem C1_aborted_chain_witness:
  "sqlasync_thread toy [Some toy_open, Some (toy_sql SQLASYNC_NEXT ''fail'')]
     (sqlasync_create None []) = Returns demo_aborted
   \<and> summary (sqlasync_thread toy
        (map Some [toy_sql SQLASYNC_NEXT ''ok'', toy_sql SQLASYNC_NEXT ''select'']) demo_aborted) =
      Returns ([(Open_result, Some 1, 0, True, 0), (Final_result, Some 2, 19, True, 1),
                (Final_result, Some 2, 1, True, 1), (Final_result, Some 2, 1, True, 1)],
               [1, 4, 3], False, True, True)
   \<and> summary (sqlasync_thread_sql toy demo_aborted (toy_sql 0 ''ok'')) =
      Returns ([(Open_result, Some 1, 0, True, 0), (Final_result, Some 2, 19, True, 1),
                (Final_result, Some 2, 1, True, 1)], [1, 4, 3], False, False, True)
   \<and> summary (sqlasync_thread_sql toy demo_chain (toy_sql SQLASYNC_NEXT ''fail'')) =
      Returns ([(Open_result, Some 1, 0, True, 0), (Final_result, Some 2, 101, True, 0),
                (Final_result, Some 2, 19, True, 1)], [1, 8, 4, 3], False, True, True)
   \<and> summary (sqlasync_thread_sql toy demo_chain (toy_sql SQLASYNC_NEXT ''bad'')) =
      Returns ([(Open_result, Some 1, 0, True, 0), (Final_result, Some 2, 101, True, 0),
                (Final_result, Some 2, 1, True, 1)], [1, 8], True, False, True)"
proof -
  let ?ok = "toy_sql 0 ''ok''"
  let ?fail = "toy_sql SQLASYNC_NEXT ''fail''"
  let ?bad = "toy_sql SQLASYNC_NEXT ''bad''"
  let ?ops = "[toy_sql SQLASYNC_NEXT ''ok'', toy_sql SQLASYNC_NEXT ''select'']"
  let ?s1 = "demo_chain\<lparr>engine := [1, 8, 4]\<rparr>"
  let ?s2 = "demo_chain\<lparr>s_rollback := Some 3, engine := [1, 8, 4, 3], intrans := False\<rparr>"
  have members: "sqlasync_thread toy (map Some ?ops) demo_aborted =
      Returns (demo_aborted\<lparr>donext := True,
        pushed := pushed demo_aborted @ map (\<lambda>x. final_push toy demo_aborted x SQLITE_ERROR) ?ops\<rparr>)"
    using C1_aborted_chain [where s = demo_aborted and E = toy and ops = ?ops]
    by (simp add: demo_defs toy_sql_def sqlasync_op_create_def chain_def
        SQLASYNC_NEXT_def SQLASYNC_SINGLE_def)
  have boundary: "sqlasync_thread_sql toy demo_aborted ?ok =
      Returns (demo_aborted\<lparr>errtrans := False,
        pushed := pushed demo_aborted @ [final_push toy demo_aborted ?ok SQLITE_ERROR]\<rparr>)"
    using C1_aborted_chain [where s = demo_aborted and E = toy and op = ?ok]
    by (simp add: demo_defs toy_sql_def sqlasync_op_create_def chain_def
        SQLASYNC_NEXT_def SQLASYNC_SINGLE_def)
  have failing: "sqlasync_thread_sql toy demo_chain ?fail =
      Returns (sql_final toy ?fail (19, Some 4, ?s2\<lparr>errtrans := True\<rparr>))"
    using C1_aborted_chain [where s = demo_chain and E = toy and op = ?fail and ?s0.0 = demo_chain
        and r = 19 and st = "Some 4" and ?s1.0 = ?s1 and ?s2.0 = ?s2]
    by (simp add: worker_defs demo_defs exec_rows.simps step_retry.simps)
  have unprepared: "sqlasync_thread_sql toy demo_chain ?bad =
      Returns (sql_final toy ?bad (1, None, demo_chain))"
    using C1_aborted_chain [where s = demo_chain and E = toy and op = ?bad and ?s0.0 = demo_chain
        and r = 1 and ?s1.0 = demo_chain]
    by (simp add: worker_defs demo_defs exec_rows.simps step_retry.simps)
  show ?thesis
    unfolding members boundary failing unprepared
    using demo_aborted
    by (simp add: summary_def sql_final_eq final_push_def worker_defs demo_defs numcol_def)
qed

text \<open>
  C1 as stated fails: in a chain whose first member cannot be prepared, the next member
  runs (the engine steps its statement, the result is \<^verbatim>\<open>SQLITE_DONE\<close>), the transaction
  stays open and the abort flag stays clear.
\<close>

theorem C1_prepare_failure_counterexample:
  "summary (sqlasync_thread toy
      [Some toy_open, Some (toy_sql SQLASYNC_NEXT ''bad''), Some (toy_sql SQLASYNC_NEXT ''ok'')]
      (sqlasync_create None [])) =
   Returns ([(Open_result, Some 1, 0, True, 0), (Final_result, Some 2, 1, True, 1),
             (Final_result, Some 2, 101, True, 0)], [1, 8], True, False, True)"
  by (simp add: summary_def worker_defs exec_rows.simps step_retry.simps numcol_def)

text \<open>
  C4.  In \<^verbatim>\<open>sqlasync_thread_exec\<close>, with no transaction open: if the steps are busy
  \<open>n\<close> times and then not, the loop goes on with the result of step \<open>n + 1\<close>; if the
  steps are busy for ever, the loop never returns.  With a transaction open, a busy
  step is not repeated: the loop ends with \<^verbatim>\<open>SQLITE_BUSY\<close>, for which the final result
  is an error result with the message of the engine.
\<close>

theorem C4_busy_retry:
  "(\<not> intrans s
      \<and> (\<forall>k. k < n \<longrightarrow> fst (sqlite3_step E st (steps E st k (engine s))) = SQLITE_BUSY)
      \<and> fst (sqlite3_step E st (steps E st n (engine s))) \<noteq> SQLITE_BUSY
     \<longrightarrow> exec_rows E qp st s =
          (let x = sqlite3_step E st (steps E st n (engine s))
           in if fst x = SQLITE_ROW
              then exec_rows E qp st (sqlasync_thread_row E qp st (s\<lparr>engine := snd x\<rparr>))
              else Some (fst x, s\<lparr>engine := snd x\<rparr>)))
   \<and> (\<not> intrans s \<and> (\<forall>k. fst (sqlite3_step E st (steps E st k (engine s))) = SQLITE_BUSY)
     \<longrightarrow> exec_rows E qp st s = None)
   \<and> (intrans s \<and> fst (sqlite3_step E st (engine s)) = SQLITE_BUSY
     \<longrightarrow> exec_rows E qp st s = Some (SQLITE_BUSY, s\<lparr>engine := snd (sqlite3_step E st (engine s))\<rparr>)
         \<and> pushed (sqlasync_thread_final E s1 op SQLITE_BUSY) =
             pushed s1 @ [\<lparr>origin = Final_result, target = opq op,
               pushed_result = \<lparr>result = SQLITE_BUSY, lastres = True,
                 col = [Text (sqlite3_errmsg E (db s1) (engine s1))]\<rparr>\<rparr>])"
proof (intro conjI impI)
  assume a: "\<not> intrans s
      \<and> (\<forall>k. k < n \<longrightarrow> fst (sqlite3_step E st (steps E st k (engine s))) = SQLITE_BUSY)
      \<and> fst (sqlite3_step E st (steps E st n (engine s))) \<noteq> SQLITE_BUSY"
  then have "step_retry E st (engine s) = step_retry E st (steps E st n (engine s))"
    by (intro step_retry_skip) simp
  also have "\<dots> = Some (sqlite3_step E st (steps E st n (engine s)))"
    using a by (intro step_retry_stops) simp
  finally show "exec_rows E qp st s =
          (let x = sqlite3_step E st (steps E st n (engine s))
           in if fst x = SQLITE_ROW
              then exec_rows E qp st (sqlasync_thread_row E qp st (s\<lparr>engine := snd x\<rparr>))
              else Some (fst x, s\<lparr>engine := snd x\<rparr>))"
    using a by (subst exec_rows.simps) (simp add: Let_def)
next
  assume a: "\<not> intrans s \<and> (\<forall>k. fst (sqlite3_step E st (steps E st k (engine s))) = SQLITE_BUSY)"
  then have "step_retry E st (engine s) = None"
    by (intro step_retry_forever) simp
  with a show "exec_rows E qp st s = None"
    by (subst exec_rows.simps) simp
next
  assume a: "intrans s \<and> fst (sqlite3_step E st (engine s)) = SQLITE_BUSY"
  then show "exec_rows E qp st s = Some (SQLITE_BUSY, s\<lparr>engine := snd (sqlite3_step E st (engine s))\<rparr>)"
    by (subst exec_rows.simps) (simp add: SQLITE_BUSY_def SQLITE_ROW_def)
next
  show "pushed (sqlasync_thread_final E s1 op SQLITE_BUSY) =
             pushed s1 @ [\<lparr>origin = Final_result, target = opq op,
               pushed_result = \<lparr>result = SQLITE_BUSY, lastres = True,
                 col = [Text (sqlite3_errmsg E (db s1) (engine s1))]\<rparr>\<rparr>]"
    by (simp add: sqlasync_thread_final_def Let_def send_def sqlasync_result_create_def
        sqlasync_text_def SQLITE_BUSY_def SQLITE_OK_def SQLITE_DONE_def)
qed

theorem C4_busy_retry_witness:
  "exec_rows toy (Some 2) (Some 6) (sqlasync_create None []) =
     Some (101, (sqlasync_create None [])\<lparr>engine := [6, 6, 0]\<rparr>)
   \<and> exec_rows toy (Some 2) (Some 9) (sqlasync_create None []) = None
   \<and> exec_rows toy (Some 2) (Some 6) ((sqlasync_create None [])\<lparr>intrans := True\<rparr>) =
     Some (5, (sqlasync_create None [])\<lparr>intrans := True, engine := [6]\<rparr>)"
proof -
  let ?s = "sqlasync_create None ([] :: nat list)"
  have st: "sqlite3_step toy = toy_step"
    by (simp add: toy_def)
  have s: "engine ?s = []" "\<not> intrans ?s"
    by (simp_all add: sqlasync_create_def)
  have s2: "steps toy (Some 6) 2 [] = [6, 6]"
    by (simp add: numeral_2_eq_2 st toy_step_def)
  have busy: "fst (sqlite3_step toy (Some 6) (steps toy (Some 6) k [])) = SQLITE_BUSY" if "k < 2" for k
  proof -
    from that have "k = 0 \<or> k = Suc 0" by auto
    then show ?thesis by (auto simp: st toy_step_def SQLITE_BUSY_def)
  qed
  have a: "exec_rows toy (Some 2) (Some 6) ?s = Some (101, ?s\<lparr>engine := [6, 6, 0]\<rparr>)"
    using C4_busy_retry [of ?s 2 toy "Some 6" "Some 2"] busy
    by (simp add: s s2) (simp add: st toy_step_def SQLITE_BUSY_def SQLITE_ROW_def)
  have b: "exec_rows toy (Some 2) (Some 9) ?s = None"
    using C4_busy_retry [of ?s 0 toy "Some 9" "Some 2"]
    by (simp add: s toy_stuck) (simp add: st toy_step_def SQLITE_BUSY_def)
  have c: "exec_rows toy (Some 2) (Some 6) (?s\<lparr>intrans := True\<rparr>) =
     Some (5, ?s\<lparr>intrans := True, engine := [6]\<rparr>)"
    using C4_busy_retry [of "?s\<lparr>intrans := True\<rparr>" 0 toy "Some 6" "Some 2"]
    by (simp add: s) (simp add: st toy_step_def SQLITE_BUSY_def)
  from a b c show ?thesis by simp
qed

text \<open>
  C5, as the code has it.  For an operation with \<^verbatim>\<open>SQLASYNC_LAST\<close>, or the first
  operation without \<^verbatim>\<open>SQLASYNC_NEXT\<close> after a \<^verbatim>\<open>SQLASYNC_NEXT\<close> when there is no
  transaction timeout, in a chain that is not aborted and with a transaction open: the
  statement is executed; if it ended with \<^verbatim>\<open>SQLITE_DONE\<close> the transaction is committed
  and the final status pushed afterwards is the status of the commit; otherwise the
  transaction is rolled back and the final status is that of the statement.  Either way
  no transaction is open afterwards, and the final status is the last thing pushed.
\<close>

theorem C5_commit_before_final:
  assumes "chain (flags op) = SQLASYNC_LAST
      \<or> (\<not> sqlasync_havetranstimeout s \<and> donext s
          \<and> chain (flags op) \<noteq> SQLASYNC_NEXT \<and> chain (flags op) \<noteq> SQLASYNC_SINGLE)"
    and "\<not> errtrans s" and "intrans s"
    and "sqlasync_thread_exec E s op = Returns (r, st, s1)"
  shows "(r = SQLITE_DONE \<and> sqlasync_thread_commit E s1 = Returns (rc, s2)
          \<longrightarrow> sqlasync_thread_sql E s op = Returns (sql_final E op (rc, st, s2))
              \<and> pushed s2 = pushed s1
              \<and> pushed (sql_final E op (rc, st, s2)) = pushed s2 @ [final_push E s2 op rc]
              \<and> \<not> intrans (sql_final E op (rc, st, s2)))
    \<and> (r \<noteq> SQLITE_DONE \<and> sqlasync_thread_rollback E s1 = Returns s2
          \<longrightarrow> sqlasync_thread_sql E s op = Returns (sql_final E op (r, st, s2))
              \<and> pushed s2 = pushed s1
              \<and> pushed (sql_final E op (r, st, s2)) = pushed s2 @ [final_push E s2 op r]
              \<and> \<not> intrans (sql_final E op (r, st, s2)))"
proof -
  have single: "chain (flags op) \<noteq> SQLASYNC_SINGLE"
    using assms(1) by (auto simp: SQLASYNC_LAST_def SQLASYNC_SINGLE_def)
  have i1: "intrans s1"
    using exec_Returns [OF assms(4)] assms(3) by auto
  have path: "sqlasync_thread_sql E s op =
      obind (if r \<noteq> SQLITE_DONE then sqlasync_thread_rollback E s1 else Returns s1) (\<lambda>s2.
        obind (if intrans s2 \<and> r = SQLITE_DONE then sqlasync_thread_commit E s2 else Returns (r, s2))
          (\<lambda>(r3, s3). Returns (sql_final E op (r3, st, s3))))"
    using assms(1,2,4) single i1 by (auto simp: sqlasync_thread_sql_def)
  show ?thesis
  proof (intro conjI impI)
    assume a: "r = SQLITE_DONE \<and> sqlasync_thread_commit E s1 = Returns (rc, s2)"
    with path i1 show "sqlasync_thread_sql E s op = Returns (sql_final E op (rc, st, s2))"
      by simp
    from a commit_Returns [of E s1 rc s2] show "pushed s2 = pushed s1"
      "\<not> intrans (sql_final E op (rc, st, s2))"
      by (auto simp: sql_final_eq)
    show "pushed (sql_final E op (rc, st, s2)) = pushed s2 @ [final_push E s2 op rc]"
      by (simp add: sql_final_eq)
  next
    assume a: "r \<noteq> SQLITE_DONE \<and> sqlasync_thread_rollback E s1 = Returns s2"
    then have n: "\<not> intrans s2" "pushed s2 = pushed s1"
      using rollback_Returns [of E s1 s2] by auto
    with a path show "sqlasync_thread_sql E s op = Returns (sql_final E op (r, st, s2))"
      by simp
    from n show "pushed s2 = pushed s1" "\<not> intrans (sql_final E op (r, st, s2))"
      by (simp_all add: sql_final_eq)
    show "pushed (sql_final E op (r, st, s2)) = pushed s2 @ [final_push E s2 op r]"
      by (simp add: sql_final_eq)
  qed
qed

theorem C5_commit_before_final_witness:
  "sqlasync_thread toy [Some toy_open, Some (toy_sql SQLASYNC_NEXT ''ok'')]
     (sqlasync_create None []) = Returns demo_chain
   \<and> summary (sqlasync_thread_sql toy demo_chain (toy_sql SQLASYNC_LAST ''ok'')) =
      Returns ([(Open_result, Some 1, 0, True, 0), (Final_result, Some 2, 101, True, 0),
                (Final_result, Some 2, 101, True, 0)], [1, 8, 8, 2], False, False, True)
   \<and> summary (sqlasync_thread_sql toy demo_chain (toy_sql 0 ''poison'')) =
      Returns ([(Open_result, Some 1, 0, True, 0), (Final_result, Some 2, 101, True, 0),
                (Final_result, Some 2, 1, True, 1)], [1, 8, 7, 2, 3], False, False, True)
   \<and> summary (sqlasync_thread_sql toy demo_chain (toy_sql SQLASYNC_LAST ''fail'')) =
      Returns ([(Open_result, Some 1, 0, True, 0), (Final_result, Some 2, 101, True, 0),
                (Final_result, Some 2, 19, True, 1)], [1, 8, 4, 3], False, False, True)"
proof -
  let ?ok = "toy_sql SQLASYNC_LAST ''ok''"
  let ?s1 = "demo_chain\<lparr>engine := [1, 8, 8]\<rparr>"
  let ?s2 = "demo_chain\<lparr>s_commit := Some 2, engine := [1, 8, 8, 2], intrans := False\<rparr>"
  have "sqlasync_thread_sql toy demo_chain ?ok = Returns (sql_final toy ?ok (101, Some 8, ?s2))"
    using C5_commit_before_final [of ?ok demo_chain toy 101 "Some 8" ?s1 101 ?s2]
    by (simp add: worker_defs demo_defs exec_rows.simps step_retry.simps)
  then have a: "summary (sqlasync_thread_sql toy demo_chain ?ok) =
      Returns ([(Open_result, Some 1, 0, True, 0), (Final_result, Some 2, 101, True, 0),
                (Final_result, Some 2, 101, True, 0)], [1, 8, 8, 2], False, False, True)"
    by (simp add: summary_def sql_final_eq final_push_def worker_defs demo_defs numcol_def)
  let ?po = "toy_sql 0 ''poison''"
  let ?p1 = "demo_chain\<lparr>engine := [1, 8, 7]\<rparr>"
  let ?p2 = "demo_chain\<lparr>s_commit := Some 2, s_rollback := Some 3, engine := [1, 8, 7, 2, 3], intrans := False\<rparr>"
  have "sqlasync_thread_sql toy demo_chain ?po = Returns (sql_final toy ?po (1, Some 7, ?p2))"
    using C5_commit_before_final [of ?po demo_chain toy 101 "Some 7" ?p1 1 ?p2]
    by (simp add: worker_defs demo_defs exec_rows.simps step_retry.simps)
  then have b: "summary (sqlasync_thread_sql toy demo_chain ?po) =
      Returns ([(Open_result, Some 1, 0, True, 0), (Final_result, Some 2, 101, True, 0),
                (Final_result, Some 2, 1, True, 1)], [1, 8, 7, 2, 3], False, False, True)"
    by (simp add: summary_def sql_final_eq final_push_def worker_defs demo_defs numcol_def)
  let ?fa = "toy_sql SQLASYNC_LAST ''fail''"
  let ?f1 = "demo_chain\<lparr>engine := [1, 8, 4]\<rparr>"
  let ?f2 = "demo_chain\<lparr>s_rollback := Some 3, engine := [1, 8, 4, 3], intrans := False\<rparr>"
  have "sqlasync_thread_sql toy demo_chain ?fa = Returns (sql_final toy ?fa (19, Some 4, ?f2))"
    using C5_commit_before_final [of ?fa demo_chain toy 19 "Some 4" ?f1 0 ?f2]
    by (simp add: worker_defs demo_defs exec_rows.simps step_retry.simps)
  then have c: "summary (sqlasync_thread_sql toy demo_chain ?fa) =
      Returns ([(Open_result, Some 1, 0, True, 0), (Final_result, Some 2, 101, True, 0),
                (Final_result, Some 2, 19, True, 1)], [1, 8, 4, 3], False, False, True)"
    by (simp add: summary_def sql_final_eq final_push_def worker_defs demo_defs numcol_def)
  from demo_chain a b c show ?thesis by simp
qed

text \<open>
  C5 as stated fails in an aborted chain: the \<^verbatim>\<open>SQLASYNC_LAST\<close> operation is not
  executed (the engine is as before) and its final status is \<^verbatim>\<open>SQLITE_ERROR\<close>.
\<close>

theorem C5_aborted_chain_counterexample:
  "sqlasync_thread toy [Some toy_open, Some (toy_sql SQLASYNC_NEXT ''fail'')]
     (sqlasync_create None []) = Returns demo_aborted
   \<and> summary (sqlasync_thread_sql toy demo_aborted (toy_sql SQLASYNC_LAST ''ok'')) =
      Returns ([(Open_result, Some 1, 0, True, 0), (Final_result, Some 2, 19, True, 1),
                (Final_result, Some 2, 1, True, 1)], [1, 4, 3], False, False, True)
   \<and> engine demo_aborted = [1, 4, 3]"
  using demo_aborted
  by (simp add: summary_def worker_defs demo_defs numcol_def)








text \<open>
  C6.  An error result of a deferred commit is pushed only in a turn that needs a commit (the
  deadline expired with no operation, or an open, close, quit, custom or single operation was
  dequeued inside a transaction); it goes to \<^verbatim>\<open>s->dbqueue\<close>, without \<^verbatim>\<open>last\<close>, and carries the
  status of the commit and the message of the engine; \<^verbatim>\<open>s->dbqueue\<close> is the second queue given
  to the successful open.  A connection created with a \<^verbatim>\<open>NULL\<close> transaction timeout never
  holds such a result, whatever the thread has dequeued, and a turn of it that would need a
  commit does not return.
\<close>

theorem C6_deferred_commit_errors:
  "(thread_turn E ev s = Returns (c, s')
      \<longrightarrow> (\<forall>p \<in> set (new_pushes s s'). origin p = Commit_error
             \<longrightarrow> target p = dbqueue s \<and> \<not> lastres (pushed_result p) \<and> commit_needed s ev))
   \<and> (\<not> donext s \<and> sqlasync_thread_commit E s = Returns (r, s1) \<and> r \<noteq> SQLITE_DONE
      \<longrightarrow> deferred_commit E s =
            Returns (s1\<lparr>pushed := pushed s1 @
              [\<lparr>origin = Commit_error, target = dbqueue s,
                pushed_result = \<lparr>result = r mod 65536, lastres = False,
                  col = [Text (sqlite3_errmsg E (db s) (engine s1))]\<rparr>\<rparr>]\<rparr>))
   \<and> (sqlasync_thread_open E s (sqlasync_op_create qp fn SQLASYNC_OPEN [sqlasync_int fl, Ptr errq]) = Returns s2
       \<and> db s2 \<longrightarrow> dbqueue s2 = errq)
   \<and> (sqlasync_thread E evs (sqlasync_create None e0) = Returns s3
      \<longrightarrow> no_commit_error s3
          \<and> (\<forall>x. commit_needed s3 x
                \<longrightarrow> thread_turn E x s3 = Assert_fails \<or> thread_turn E x s3 = Hangs))"
proof (intro conjI impI)
  assume "thread_turn E ev s = Returns (c, s')"
  then show "\<forall>p \<in> set (new_pushes s s'). origin p = Commit_error
             \<longrightarrow> target p = dbqueue s \<and> \<not> lastres (pushed_result p) \<and> commit_needed s ev"
    by (rule turn_commit_errors)
next
  assume a: "\<not> donext s \<and> sqlasync_thread_commit E s = Returns (r, s1) \<and> r \<noteq> SQLITE_DONE"
  then obtain cm rb e where "s1 = s\<lparr>s_commit := cm, s_rollback := rb, engine := e, intrans := False\<rparr>"
    using commit_Returns [of E s r s1] by blast
  with a show "deferred_commit E s =
            Returns (s1\<lparr>pushed := pushed s1 @
              [\<lparr>origin = Commit_error, target = dbqueue s,
                pushed_result = \<lparr>result = r mod 65536, lastres = False,
                  col = [Text (sqlite3_errmsg E (db s) (engine s1))]\<rparr>\<rparr>]\<rparr>)"
    by (simp add: deferred_commit_def Let_def send_def sqlasync_result_create_def
        sqlasync_text_def uint_word_of_int del: obind_Returns)
next
  assume "sqlasync_thread_open E s (sqlasync_op_create qp fn SQLASYNC_OPEN [sqlasync_int fl, Ptr errq]) = Returns s2
       \<and> db s2"
  then show "dbqueue s2 = errq"
    using open_Returns [of E s "sqlasync_op_create qp fn SQLASYNC_OPEN [sqlasync_int fl, Ptr errq]" s2]
    by (auto simp: sqlasync_op_create_def arg_ptr_def)
next
  assume "sqlasync_thread E evs (sqlasync_create None e0) = Returns s3"
  with untimed_init have i: "untimed_inv s3"
    by (rule untimed_thread)
  then show "no_commit_error s3"
    by (simp add: untimed_inv_def)
  from i show "\<forall>x. commit_needed s3 x
                \<longrightarrow> thread_turn E x s3 = Assert_fails \<or> thread_turn E x s3 = Hangs"
    by (auto dest: untimed_needs_no_commit)
qed

theorem C6_deferred_commit_errors_witness:
  "sqlasync_thread toy [Some toy_open, Some (toy_sql 0 ''poison'')]
     (sqlasync_create (Some (0, 100)) []) = Returns demo_timed
   \<and> turn_summary (thread_turn toy None demo_timed) =
      Returns ([(Open_result, Some 1, 0, True, 0), (Final_result, Some 2, 101, True, 0),
                (Commit_error, Some 9, 1, False, 1)], [1, 7, 2, 3], False, False, False)
   \<and> dbqueue demo_timed = Some 9
   \<and> sqlasync_thread toy [Some toy_open, Some (toy_sql SQLASYNC_NEXT ''ok'')]
        (sqlasync_create None []) = Returns demo_chain
   \<and> thread_turn toy None demo_chain = Assert_fails
   \<and> thread_turn toy (Some toy_close) demo_chain = Assert_fails"
proof -
  let ?s1 = "demo_timed\<lparr>s_commit := Some 2, s_rollback := Some 3, engine := [1, 7, 2, 3],
      intrans := False\<rparr>"
  have "deferred_commit toy demo_timed =
      Returns (?s1\<lparr>pushed := pushed ?s1 @
        [\<lparr>origin = Commit_error, target = dbqueue demo_timed,
          pushed_result = \<lparr>result = 1 mod 65536, lastres = False,
            col = [Text (sqlite3_errmsg toy (db demo_timed) (engine ?s1))]\<rparr>\<rparr>]\<rparr>)"
    using C6_deferred_commit_errors [where E = toy and s = demo_timed and r = 1 and ?s1.0 = ?s1]
    by (simp add: worker_defs demo_defs demo_defs2 step_retry.simps del: obind_Returns)
  then have a: "turn_summary (thread_turn toy None demo_timed) =
      Returns ([(Open_result, Some 1, 0, True, 0), (Final_result, Some 2, 101, True, 0),
                (Commit_error, Some 9, 1, False, 1)], [1, 7, 2, 3], False, False, False)"
    by (simp add: turn_None turn_summary_def summary_def demo_timed_def demo_open_push_def
        numcol_def toy_def del: obind_Returns)
  have c: "commit_needed demo_chain None" "commit_needed demo_chain (Some toy_close)"
    by (simp_all add: commit_needed_def demo_chain_def toy_close_def sqlasync_op_create_def)
  from C6_deferred_commit_errors [where E = toy
      and evs = "[Some toy_open, Some (toy_sql SQLASYNC_NEXT ''ok'')]"
      and ?e0.0 = "[]" and ?s3.0 = demo_chain] demo_chain
  have e: "\<forall>x. commit_needed demo_chain x \<longrightarrow>
      thread_turn toy x demo_chain = Assert_fails \<or> thread_turn toy x demo_chain = Hangs"
    by blast
  have "thread_turn toy None demo_chain \<noteq> Hangs"
    by (simp add: turn_None demo_chain_def deferred_commit_def commit_needed_def
        del: obind_Returns)
  with e c(1) have b1: "thread_turn toy None demo_chain = Assert_fails"
    by blast
  have "thread_turn toy (Some toy_close) demo_chain \<noteq> Hangs"
    by (simp add: turn_Some demo_chain_def deferred_commit_def commit_needed_def toy_close_def
        sqlasync_op_create_def del: obind_Returns)
  with e c(2) have b2: "thread_turn toy (Some toy_close) demo_chain = Assert_fails"
    by blast
  have d: "dbqueue demo_timed = Some 9"
    by (simp add: demo_timed_def)
  from demo_timed a d demo_chain b1 b2 show ?thesis by simp
qed


text \<open>
  C10.  With the queue \<^verbatim>\<open>NULL\<close>, \<^verbatim>\<open>sqlasync_queue_result\<close> frees the result and changes
  nothing else, and \<^verbatim>\<open>sqlasync_queue_schedule\<close> and \<^verbatim>\<open>sqlasync_queue_destroy\<close> change nothing;
  submitting a query with the queue \<^verbatim>\<open>NULL\<close> only appends the operation.  The worker executes
  such an operation as it executes the same operation with a queue (it returns, fails an
  assertion or never returns alike, and leaves the same connection), except that every result
  it pushes is addressed to \<^verbatim>\<open>NULL\<close>: delivering them frees each one and changes no queue and
  not the wakeup object.
\<close>

theorem C10_null_queue_discards:
  "sqlasync_queue_result None r w = Some (sqlasync_result_free r w)
   \<and> sqlasync_result_free r w = w\<lparr>trace := trace w @ [Result_freed r]\<rparr>
   \<and> sqlasync_queue_schedule None w = w
   \<and> sqlasync_queue_destroy None w = w
   \<and> sqlasync_sqlv_unlocked None fl query binds (w, ops) =
         (None, w, ops @ [sqlasync_op_create None query fl binds])
   \<and> sqlasync_thread_sql E s (op\<lparr>opq := None\<rparr>) =
         obind (sqlasync_thread_sql E s op) (\<lambda>s'. Returns (discard_from (length (pushed s)) s'))
   \<and> (sqlasync_thread_sql E s (op\<lparr>opq := None\<rparr>) = Returns s'
       \<longrightarrow> (\<forall>p \<in> set (new_pushes s s'). target p = None)
         \<and> deliver (new_pushes s s') w =
             Some (w\<lparr>trace := trace w @ map (\<lambda>p. Result_freed (pushed_result p)) (new_pushes s s')\<rparr>))"
proof (intro conjI impI)
  show "sqlasync_queue_result None r w = Some (sqlasync_result_free r w)"
    by (simp add: sqlasync_queue_result_def)
  show "sqlasync_result_free r w = w\<lparr>trace := trace w @ [Result_freed r]\<rparr>"
    by (simp add: sqlasync_result_free_def emit_def)
  show "sqlasync_queue_schedule None w = w"
    by (simp add: sqlasync_queue_schedule_def)
  show "sqlasync_queue_destroy None w = w"
    by (simp add: sqlasync_queue_destroy_def)
  show "sqlasync_sqlv_unlocked None fl query binds (w, ops) =
         (None, w, ops @ [sqlasync_op_create None query fl binds])"
    by (simp add: sqlasync_sqlv_unlocked_def sqlasync_queue_schedule_def)
  show "sqlasync_thread_sql E s (op\<lparr>opq := None\<rparr>) =
         obind (sqlasync_thread_sql E s op) (\<lambda>s'. Returns (discard_from (length (pushed s)) s'))"
    by (rule sql_null_queue)
next
  assume a: "sqlasync_thread_sql E s (op\<lparr>opq := None\<rparr>) = Returns s'"
  then show n: "\<forall>p \<in> set (new_pushes s s'). target p = None"
    by (rule sql_null_pushes)
  then show "deliver (new_pushes s s') w =
      Some (w\<lparr>trace := trace w @ map (\<lambda>p. Result_freed (pushed_result p)) (new_pushes s s')\<rparr>)"
    by (rule deliver_null)
qed

theorem C10_null_queue_discards_witness:
  "sqlasync_thread_sql toy demo_opened ((toy_sql 0 ''select'')\<lparr>opq := None\<rparr>) = Returns demo_discarded
   \<and> summary (sqlasync_thread_sql toy demo_opened (toy_sql 0 ''select'')) =
       Returns ([(Open_result, Some 1, 0, True, 0), (Row_result, Some 2, 100, False, 1),
                 (Final_result, Some 2, 101, True, 0)], [5, 0], False, False, False)
   \<and> map target (new_pushes demo_opened demo_discarded) = [None, None]
   \<and> deliver (new_pushes demo_opened demo_discarded) (world_init True) =
       Some ((world_init True)\<lparr>trace := [Result_freed demo_row, Result_freed demo_done]\<rparr>)"
proof -
  note t = C10_null_queue_discards [where E = toy and s = demo_opened
      and op = "toy_sql 0 ''select''" and s' = demo_discarded and w = "world_init True"]
  have np: "new_pushes demo_opened demo_discarded =
      [\<lparr>origin = Row_result, target = None, pushed_result = demo_row\<rparr>,
       \<lparr>origin = Final_result, target = None, pushed_result = demo_done\<rparr>]"
    by (simp add: new_pushes_def demo_opened_def demo_discarded_def)
  from t demo_discarded
  have d: "deliver (new_pushes demo_opened demo_discarded) (world_init True) =
       Some ((world_init True)\<lparr>trace := trace (world_init True)
          @ map (\<lambda>p. Result_freed (pushed_result p)) (new_pushes demo_opened demo_discarded)\<rparr>)"
    by blast
  have b: "summary (sqlasync_thread_sql toy demo_opened (toy_sql 0 ''select'')) =
       Returns ([(Open_result, Some 1, 0, True, 0), (Row_result, Some 2, 100, False, 1),
                 (Final_result, Some 2, 101, True, 0)], [5, 0], False, False, False)"
    by (simp add: summary_def worker_defs demo_defs demo_defs2 exec_rows.simps step_retry.simps
        numcol_def del: obind_Returns)
  from demo_discarded b d show ?thesis
    by (simp add: np world_init_def)
qed

end
